theory Spec2Isabelle
  imports Complex_Main
begin

section \<open>PushButtonModel (src/js/demo/ComponentsScreenView.ts, second document)\<close>

text \<open>
  The push button model is a PropertySet with the three properties \<open>over\<close>, \<open>down\<close> and
  \<open>enabled\<close>. The option \<open>fireOnDown\<close> is captured by the two observers of \<open>down\<close>.
  \<open>fire()\<close> calls every registered listener once; the listeners are opaque callbacks, so
  the model counts the calls of \<open>fire()\<close> in \<open>fires\<close>.
\<close>

record PushButtonModel =
  over :: bool
  down :: bool
  enabled :: bool
  fireOnDown :: bool
  fires :: nat

text \<open>
  The derived property \<open>interactionState\<close>, with the source's order of the tests and its
  string values.
\<close>

definition interactionState :: "PushButtonModel \<Rightarrow> string" where
  "interactionState m =
     (if \<not> enabled m then ''disabled''
      else if over m \<and> \<not> down m then ''over''
      else if over m \<and> down m then ''pressed''
      else ''idle'')"

text \<open>
  The precedence order as the specification words it, for comparison with the code:
  disabled (enabled=false) > pressed (down and enabled) > over (over and enabled and not
  down) > idle.
\<close>

definition spec_interactionState :: "PushButtonModel \<Rightarrow> string" where
  "spec_interactionState m =
     (if \<not> enabled m then ''disabled''
      else if down m \<and> enabled m then ''pressed''
      else if over m \<and> enabled m \<and> \<not> down m then ''over''
      else ''idle'')"

definition fire :: "PushButtonModel \<Rightarrow> PushButtonModel" where
  "fire m = m\<lparr>fires := fires m + 1\<rparr>"

text \<open>
  The observer registered with \<open>property('down').onValue(true, ...)\<close>: it runs when
  \<open>down\<close> has taken the value true.
\<close>

definition onDownTrue :: "PushButtonModel \<Rightarrow> PushButtonModel" where
  "onDownTrue m = (if fireOnDown m \<and> enabled m then fire m else m)"

text \<open>
  The observer registered with \<open>property('down').onValue(false, ...)\<close>: it runs when
  \<open>down\<close> has taken the value false.
\<close>

definition onDownFalse :: "PushButtonModel \<Rightarrow> PushButtonModel" where
  "onDownFalse m = (if \<not> fireOnDown m \<and> over m \<and> enabled m then fire m else m)"

text \<open>
  Setting the \<open>down\<close> property. A Property of the axon library keeps its value and
  notifies nobody when it is set to the value it already holds; otherwise it stores the
  new value and calls its observers, of which the one registered for that value acts.
\<close>

definition set_down :: "bool \<Rightarrow> PushButtonModel \<Rightarrow> PushButtonModel" where
  "set_down v m =
     (if down m = v then m
      else if v then onDownTrue (m\<lparr>down := v\<rparr>)
      else onDownFalse (m\<lparr>down := v\<rparr>))"

text \<open>
  The constructor. The properties start as over=false, down=false, enabled=true.
  \<open>onValue\<close> links its observer, and linking calls the observer at once with the
  current value, so the observer for false runs once during construction.
\<close>

definition newPushButtonModel :: "bool \<Rightarrow> PushButtonModel" where
  "newPushButtonModel fod =
     onDownFalse \<lparr>over = False, down = False, enabled = True, fireOnDown = fod, fires = 0\<rparr>"

text \<open>
  Modelled from the spec: the input listener that turns pointer events into property
  updates (ButtonListener) is not among the sources. The specification names the events
  pointerEnter, pointerExit, pointerDown and pointerUp as the only writers of the flags:
  enter and exit write \<open>over\<close>, down and up write \<open>down\<close>.
\<close>

datatype PointerEvent = PointerEnter | PointerExit | PointerDown | PointerUp

fun pointerEvent :: "PointerEvent \<Rightarrow> PushButtonModel \<Rightarrow> PushButtonModel" where
  "pointerEvent PointerEnter m = m\<lparr>over := True\<rparr>"
| "pointerEvent PointerExit m = m\<lparr>over := False\<rparr>"
| "pointerEvent PointerDown m = set_down True m"
| "pointerEvent PointerUp m = set_down False m"

fun pointerEvents :: "PointerEvent list \<Rightarrow> PushButtonModel \<Rightarrow> PushButtonModel" where
  "pointerEvents [] m = m"
| "pointerEvents (e # es) m = pointerEvents es (pointerEvent e m)"

text \<open>
  The history of an event sequence, read off the events alone. \<open>pressHeld b es\<close>: the
  latest pointerDown or pointerUp of \<open>es\<close> is a pointerDown, that is, a press is waiting
  for its matching release (\<open>b\<close> when \<open>es\<close> has neither). \<open>pointerInside b es\<close>: the
  latest pointerEnter or pointerExit of \<open>es\<close> is a pointerEnter.
\<close>

fun pressHeld :: "bool \<Rightarrow> PointerEvent list \<Rightarrow> bool" where
  "pressHeld b [] = b"
| "pressHeld b (PointerDown # es) = pressHeld True es"
| "pressHeld b (PointerUp # es) = pressHeld False es"
| "pressHeld b (e # es) = pressHeld b es"

fun pointerInside :: "bool \<Rightarrow> PointerEvent list \<Rightarrow> bool" where
  "pointerInside b [] = b"
| "pointerInside b (PointerEnter # es) = pointerInside True es"
| "pointerInside b (PointerExit # es) = pointerInside False es"
| "pointerInside b (e # es) = pointerInside b es"

section \<open>RadioButtonInteractionStateProperty (src/unnamed/part_003, first document)\<close>

text \<open>
  The four states of src/unnamed/part_012 (RadioButtonInteractionState).
\<close>

datatype RadioButtonInteractionState = SELECTED | DESELECTED | OVER | PRESSED

text \<open>
  The boolean properties of a ButtonModel that the derivation depends on. They are four
  separate properties of the model: \<open>overProperty\<close> and \<open>looksOverProperty\<close> are
  different cells.
\<close>

record ButtonModel =
  focusedProperty :: bool
  overProperty :: bool
  looksOverProperty :: bool
  looksPressedProperty :: bool

text \<open>
  The derivation function of the DerivedProperty. \<open>propertyValue\<close> is the current value
  of the Property the radio buttons share, \<open>buttonValue\<close> the value this button sets.
\<close>

definition RadioButtonInteractionStateProperty ::
  "ButtonModel \<Rightarrow> 'a \<Rightarrow> 'a \<Rightarrow> RadioButtonInteractionState" where
  "RadioButtonInteractionStateProperty buttonModel propertyValue buttonValue =
     (let isSelected = (propertyValue = buttonValue) in
      if looksOverProperty buttonModel \<and> \<not> (looksPressedProperty buttonModel \<or> isSelected)
        then OVER
      else if (overProperty buttonModel \<or> focusedProperty buttonModel) \<and>
              looksPressedProperty buttonModel
        then PRESSED
      else if isSelected then SELECTED
      else DESELECTED)"

text \<open>
  The derivation as the specification words it, for comparison with the code:
  over and not (looksPressed or selected) gives OVER; (over or focused) and looksPressed
  gives PRESSED; selected gives SELECTED; else DESELECTED.
\<close>

definition spec_radioInteractionState ::
  "ButtonModel \<Rightarrow> 'a \<Rightarrow> 'a \<Rightarrow> RadioButtonInteractionState" where
  "spec_radioInteractionState buttonModel propertyValue buttonValue =
     (let selected = (propertyValue = buttonValue) in
      if overProperty buttonModel \<and> \<not> (looksPressedProperty buttonModel \<or> selected)
        then OVER
      else if (overProperty buttonModel \<or> focusedProperty buttonModel) \<and>
              looksPressedProperty buttonModel
        then PRESSED
      else if selected then SELECTED
      else DESELECTED)"

text \<open>
  A radio button group: every member has a button model of its own and its declared
  value; all members read the same value cell. \<open>groupStates\<close> lists what the members'
  interaction state properties report, \<open>selectedCount\<close> counts the reports of SELECTED.
\<close>

definition groupStates :: "(ButtonModel \<times> 'a) list \<Rightarrow> 'a \<Rightarrow> RadioButtonInteractionState list" where
  "groupStates members propertyValue =
     map (\<lambda>(buttonModel, buttonValue).
            RadioButtonInteractionStateProperty buttonModel propertyValue buttonValue) members"

definition selectedCount :: "(ButtonModel \<times> 'a) list \<Rightarrow> 'a \<Rightarrow> nat" where
  "selectedCount members propertyValue =
     length (filter (\<lambda>s. s = SELECTED) (groupStates members propertyValue))"

section \<open>AquaRadioButton (src/js/AquaRadioButton.ts)\<close>

text \<open>
  One radio button and the Property it is bound to. \<open>propertyValue\<close> is the value of the
  Property, \<open>buttonValue\<close> is the button's field \<open>value\<close>. The visibility of the two
  nodes and \<open>pdomChecked\<close> are written by the two observers linked to the Property.
  \<open>soundPlays\<close> counts the calls of \<open>options.soundPlayer.play()\<close>.
\<close>

record 'a AquaRadioButton =
  propertyValue :: 'a
  buttonValue :: 'a
  selectedNodeVisible :: bool
  deselectedNodeVisible :: bool
  pdomChecked :: bool
  soundPlays :: nat

definition syncWithModel :: "'a \<Rightarrow> 'a AquaRadioButton \<Rightarrow> 'a AquaRadioButton" where
  "syncWithModel newValue b =
     (let b1 = b\<lparr>selectedNodeVisible := (newValue = buttonValue b)\<rparr>
      in b1\<lparr>deselectedNodeVisible := \<not> selectedNodeVisible b1\<rparr>)"

definition pdomCheckedListener :: "'a \<Rightarrow> 'a AquaRadioButton \<Rightarrow> 'a AquaRadioButton" where
  "pdomCheckedListener newValue b = b\<lparr>pdomChecked := (newValue = buttonValue b)\<rparr>"

text \<open>
  \<open>property.set\<close>: the Property stores the value and, when the value changed, calls
  its observers in the order they were linked.
\<close>

definition property_set :: "'a \<Rightarrow> 'a AquaRadioButton \<Rightarrow> 'a AquaRadioButton" where
  "property_set v b =
     (if propertyValue b = v then b
      else pdomCheckedListener v (syncWithModel v (b\<lparr>propertyValue := v\<rparr>)))"

text \<open>The closure \<open>fire\<close> of the constructor.\<close>

definition aquaFire :: "'a AquaRadioButton \<Rightarrow> 'a AquaRadioButton" where
  "aquaFire b =
     (let b1 = property_set (buttonValue b) b
      in b1\<lparr>soundPlays := soundPlays b1 + 1\<rparr>)"

text \<open>
  The two ways a button is activated: the FireListener calls \<open>fire\<close> for a pointer
  press, the input listener \<open>changeListener\<close> calls the same \<open>fire\<close> for the change
  event of the keyboard.
\<close>

datatype Activation = PointerFire | KeyboardChange

fun activate :: "Activation \<Rightarrow> 'a AquaRadioButton \<Rightarrow> 'a AquaRadioButton" where
  "activate PointerFire b = aquaFire b"
| "activate KeyboardChange b = aquaFire b"

text \<open>
  The constructor, as far as the fields above go: linking an observer calls it at once
  with the Property's current value.
\<close>

definition newAquaRadioButton :: "'a \<Rightarrow> 'a \<Rightarrow> 'a AquaRadioButton" where
  "newAquaRadioButton pv v =
     pdomCheckedListener pv
       (syncWithModel pv
          \<lparr>propertyValue = pv, buttonValue = v, selectedNodeVisible = True,
           deselectedNodeVisible = True, pdomChecked = False, soundPlays = 0\<rparr>)"

section \<open>ComboBox (src/js/ComboBox.ts, first document)\<close>

text \<open>
  The part of a ComboBox that its open/close machine reads and writes.
  \<^item> \<open>listBoxVisible\<close>: the value of \<open>listBox.visibleProperty\<close> (true is OPEN).
  \<^item> \<open>display\<close>: the field \<open>this.display\<close>, \<open>None\<close> for null.
  \<^item> \<open>dismissListenerOn\<close>: the displays whose input listeners include
    \<open>clickToDismissListener\<close>.
  \<^item> \<open>displayOnly\<close>: the value of \<open>displayOnlyProperty\<close>.
  \<^item> \<open>rootedDisplays\<close>: what \<open>getUniqueTrail().rootNode().getRootedDisplays()\<close>
    returns at the moment; the scene graph owns it and may change it.
  \<^item> \<open>removeCalls\<close>: how often \<open>removeInputListener\<close> was called on a display.
\<close>

type_synonym Display = nat

datatype Node = ButtonNode | ListBoxNode | OtherNode nat

datatype ComboBoxError = UnexpectedDisplay | NoRootedDisplay

record ComboBox =
  listBoxVisible :: bool
  display :: "Display option"
  dismissListenerOn :: "Display set"
  displayOnly :: bool
  rootedDisplays :: "Display list"
  removeCalls :: nat

text \<open>
  What a call gives: \<open>Inr c\<close> when it returns, leaving the combo box as \<open>c\<close>, and
  \<open>Inl (e, c)\<close> when it raises \<open>e\<close>, leaving the combo box as \<open>c\<close>: what was
  written before the raise stays written.
\<close>

type_synonym ComboBoxResult = "(ComboBoxError \<times> ComboBox) + ComboBox"

text \<open>
  The observer linked to \<open>listBox.visibleProperty\<close>. In the visible branch the
  assertion fails when a display is still tracked, and indexing an empty array of rooted
  displays gives undefined, which is stored in \<open>this.display\<close> and on which
  \<open>addInputListener\<close> raises a TypeError. Scaling and moving the list box change only
  its geometry.
\<close>

definition visibleChanged :: "bool \<Rightarrow> ComboBox \<Rightarrow> ComboBoxResult" where
  "visibleChanged vis c =
     (if vis then
        (if display c \<noteq> None then Inl (UnexpectedDisplay, c)
         else case rootedDisplays c of
                [] \<Rightarrow> Inl (NoRootedDisplay, c\<lparr>display := None\<rparr>)
              | d # _ \<Rightarrow>
                  Inr (c\<lparr>display := Some d,
                         dismissListenerOn := insert d (dismissListenerOn c)\<rparr>))
      else
        (case display c of
           None \<Rightarrow> Inr c
         | Some d \<Rightarrow>
             if d \<in> dismissListenerOn c
             then Inr (c\<lparr>dismissListenerOn := dismissListenerOn c - {d},
                          removeCalls := removeCalls c + 1,
                          display := None\<rparr>)
             else Inr c))"

text \<open>
  Writing \<open>listBox.visibleProperty.value\<close>: the Property notifies its observer only
  when the value changes, and it holds the new value when the observer runs.
\<close>

definition setListBoxVisible :: "bool \<Rightarrow> ComboBox \<Rightarrow> ComboBoxResult" where
  "setListBoxVisible vis c =
     (if listBoxVisible c = vis then Inr c
      else visibleChanged vis (c\<lparr>listBoxVisible := vis\<rparr>))"

definition showListBox :: "ComboBox \<Rightarrow> ComboBoxResult" where
  "showListBox c = setListBoxVisible True c"

definition hideListBox :: "ComboBox \<Rightarrow> ComboBoxResult" where
  "hideListBox c = setListBoxVisible False c"

text \<open>
  The listener added to the button: it toggles the visibility of the list box. When the
  list box has become visible it also moves the focus into the list box, which changes
  nothing that the machine reads.
\<close>

definition buttonListener :: "ComboBox \<Rightarrow> ComboBoxResult" where
  "buttonListener c = setListBoxVisible (\<not> listBoxVisible c) c"

text \<open>
  \<open>clickToDismissListener.down\<close>. \<open>fuzzEnabled\<close> is \<open>phet.chipper.isFuzzEnabled()\<close>,
  \<open>nextDouble\<close> the draw of \<open>dotRandom.nextDouble()\<close> (a double in [0, 1); no double
  lies between 5/1000 and the double nearest to it, so the comparison with the rational
  decides the same), \<open>trail\<close> the nodes of \<open>event.trail\<close>.
\<close>

definition clickToDismissListener_down ::
  "bool \<Rightarrow> rat \<Rightarrow> Node list \<Rightarrow> ComboBox \<Rightarrow> ComboBoxResult" where
  "clickToDismissListener_down fuzzEnabled nextDouble trail c =
     (if \<not> fuzzEnabled \<or> nextDouble < 5 / 1000 then
        (if \<not> (ButtonNode \<in> set trail \<or> ListBoxNode \<in> set trail) then hideListBox c
         else Inr c)
      else Inr c)"

text \<open>\<open>dismissWithFocusListener\<close>: \<open>None\<close> is the focus null.\<close>

definition dismissWithFocusListener :: "Node list option \<Rightarrow> ComboBox \<Rightarrow> ComboBoxResult" where
  "dismissWithFocusListener focus c =
     (case focus of
        None \<Rightarrow> Inr c
      | Some trail \<Rightarrow> if ListBoxNode \<notin> set trail then hideListBox c else Inr c)"

text \<open>
  Writing \<open>displayOnlyProperty\<close>: its observer hides the list box (and changes the
  button's look and the pickability, which the machine does not read).
\<close>

definition setDisplayOnly :: "bool \<Rightarrow> ComboBox \<Rightarrow> ComboBoxResult" where
  "setDisplayOnly b c =
     (if displayOnly c = b then Inr c else hideListBox (c\<lparr>displayOnly := b\<rparr>))"

text \<open>
  The constructor: the list box is created with \<open>visible: false\<close>, \<open>this.display\<close>
  is null, and the two observers are called once when they are linked.
\<close>

definition newComboBox :: "Display list \<Rightarrow> ComboBoxResult" where
  "newComboBox rooted =
     (case visibleChanged False
             \<lparr>listBoxVisible = False, display = None, dismissListenerOn = {},
              displayOnly = False, rootedDisplays = rooted, removeCalls = 0\<rparr> of
        Inl e \<Rightarrow> Inl e
      | Inr c \<Rightarrow> hideListBox c)"

text \<open>
  Everything that can happen to a ComboBox between its construction and its disposal.
  Selecting an item calls the hide callback handed to the list box, which is
  \<open>hideListBox\<close>. A pointer down on display \<open>d\<close> reaches \<open>clickToDismissListener\<close>
  when the listener is among the input listeners of \<open>d\<close>. \<open>SceneChanged\<close> is the scene
  graph moving the combo box under other displays.
\<close>

datatype ComboBoxOp =
    ShowListBox
  | HideListBox
  | ButtonFired
  | RootPointerDown Display bool rat "Node list"
  | PdomFocus "Node list option"
  | SetDisplayOnly bool
  | SceneChanged "Display list"

fun comboBoxOp :: "ComboBoxOp \<Rightarrow> ComboBox \<Rightarrow> ComboBoxResult" where
  "comboBoxOp ShowListBox c = showListBox c"
| "comboBoxOp HideListBox c = hideListBox c"
| "comboBoxOp ButtonFired c = buttonListener c"
| "comboBoxOp (RootPointerDown d fuzzEnabled nextDouble trail) c =
     (if d \<in> dismissListenerOn c
      then clickToDismissListener_down fuzzEnabled nextDouble trail c
      else Inr c)"
| "comboBoxOp (PdomFocus focus) c = dismissWithFocusListener focus c"
| "comboBoxOp (SetDisplayOnly b) c = setDisplayOnly b c"
| "comboBoxOp (SceneChanged ds) c = Inr (c\<lparr>rootedDisplays := ds\<rparr>)"

text \<open>
  A sequence of operations none of which raises; the first raise is reported with the
  combo box it leaves.
\<close>

fun comboBoxOps :: "ComboBoxOp list \<Rightarrow> ComboBox \<Rightarrow> ComboBoxResult" where
  "comboBoxOps [] c = Inr c"
| "comboBoxOps (x # xs) c =
     (case comboBoxOp x c of Inl e \<Rightarrow> Inl e | Inr c' \<Rightarrow> comboBoxOps xs c')"

text \<open>
  The states of a ComboBox none of whose operations raised: what such a sequence of
  operations leaves behind, starting from the constructor.
\<close>

definition comboBoxState :: "Display list \<Rightarrow> ComboBoxOp list \<Rightarrow> ComboBoxResult" where
  "comboBoxState rooted ops =
     (case newComboBox rooted of Inl e \<Rightarrow> Inl e | Inr c \<Rightarrow> comboBoxOps ops c)"

text \<open>
  The life of a ComboBox as it is: an operation that raises does not end it. The
  exception leaves the call, the combo box stays as the raise left it, and the next
  operation finds it so.
\<close>

definition leftBy :: "ComboBoxResult \<Rightarrow> ComboBox" where
  "leftBy r = (case r of Inl (e, c) \<Rightarrow> c | Inr c \<Rightarrow> c)"

fun comboBoxLife :: "ComboBoxOp list \<Rightarrow> ComboBox \<Rightarrow> ComboBox" where
  "comboBoxLife [] c = c"
| "comboBoxLife (x # xs) c = comboBoxLife xs (leftBy (comboBoxOp x c))"

definition comboBoxAfter :: "Display list \<Rightarrow> ComboBoxOp list \<Rightarrow> ComboBox" where
  "comboBoxAfter rooted ops = comboBoxLife ops (leftBy (newComboBox rooted))"

text \<open>
  The bookkeeping of the dismiss listener: while the list box is visible, a display is
  tracked and the listener is on that display and on no other; while it is hidden, no
  display is tracked and the listener is on no display.
\<close>

definition dismissListenerTracked :: "ComboBox \<Rightarrow> bool" where
  "dismissListenerTracked c =
     (if listBoxVisible c
      then (case display c of None \<Rightarrow> False | Some d \<Rightarrow> dismissListenerOn c = {d})
      else display c = None \<and> dismissListenerOn c = {})"

text \<open>
  The part of the bookkeeping that a raise cannot break: a tracked display means that
  the list box is visible and the listener is on that display and on no other; no tracked
  display means that the listener is on no display.
\<close>

definition dismissListenerSafe :: "ComboBox \<Rightarrow> bool" where
  "dismissListenerSafe c =
     (case display c of
        None \<Rightarrow> dismissListenerOn c = {}
      | Some d \<Rightarrow> listBoxVisible c \<and> dismissListenerOn c = {d})"

section \<open>AccessibleNumberSpinner (src/js/buttons/BooleanRectangularToggleButton.ts, second document)\<close>

text \<open>
  Modelled from the spec: \<open>KeyboardUtils\<close> belongs to the scene graph library and is
  not among the sources. The specification lists the recognized keys: arrow, page, home
  and end. A DOM keyboard event is its key code and its \<open>metaKey\<close> flag.
\<close>

datatype KeyCode =
    ArrowUp | ArrowDown | ArrowLeft | ArrowRight | PageUp | PageDown | Home | End
  | OtherKey string

record KeyEvent =
  eventCode :: KeyCode
  metaKey :: bool

fun isRangeKeyCode :: "KeyCode \<Rightarrow> bool" where
  "isRangeKeyCode (OtherKey k) = False"
| "isRangeKeyCode k = True"

definition isRangeKey :: "KeyEvent \<Rightarrow> bool" where
  "isRangeKey ev = isRangeKeyCode (eventCode ev)"

text \<open>
  Modelled from the spec: \<open>CallbackTimer\<close> belongs to the axon library and is not among
  the sources. The specification gives its behaviour: once started, it performs its
  callbacks for the first time after \<open>delay\<close> milliseconds and then every \<open>interval\<close>
  milliseconds until it is stopped. \<open>elapsed\<close> is the time since \<open>start()\<close> and
  \<open>performed\<close> the number of times the callbacks were performed since then. A callback
  is a function object: the model gives each one a number of its own and keeps the event
  it was bound to.
\<close>

type_synonym Callback = "nat \<times> KeyEvent"

record CallbackTimer =
  delay :: nat
  interval :: nat
  running :: bool
  elapsed :: nat
  performed :: nat
  callbacks :: "Callback list"

definition isRunning :: "CallbackTimer \<Rightarrow> bool" where
  "isRunning t = running t"

definition addCallback :: "Callback \<Rightarrow> CallbackTimer \<Rightarrow> CallbackTimer" where
  "addCallback cb t = t\<lparr>callbacks := callbacks t @ [cb]\<rparr>"

definition removeCallback :: "Callback option \<Rightarrow> CallbackTimer \<Rightarrow> CallbackTimer" where
  "removeCallback cb t =
     (case cb of None \<Rightarrow> t | Some f \<Rightarrow> t\<lparr>callbacks := remove1 f (callbacks t)\<rparr>)"

definition start :: "CallbackTimer \<Rightarrow> CallbackTimer" where
  "start t = (if running t then t else t\<lparr>running := True, elapsed := 0, performed := 0\<rparr>)"

text \<open>\<open>stop( false )\<close>: the timer is cleared and no callback is performed.\<close>

definition stop :: "CallbackTimer \<Rightarrow> CallbackTimer" where
  "stop t = (if running t then t\<lparr>running := False\<rparr> else t)"

text \<open>
  How often the callbacks are to have been performed \<open>ms\<close> milliseconds after
  \<open>start()\<close>, and how many performances fall due when the clock moves on by \<open>dt\<close>.
\<close>

definition firedBy :: "CallbackTimer \<Rightarrow> nat \<Rightarrow> nat" where
  "firedBy t ms = (if ms < delay t then 0 else 1 + (ms - delay t) div interval t)"

definition due :: "CallbackTimer \<Rightarrow> nat \<Rightarrow> nat" where
  "due t dt = (if running t then firedBy t (elapsed t + dt) - performed t else 0)"

text \<open>
  The state of the trait: the node's \<open>enabledProperty\<close>, \<open>_callbackTimer\<close>, the two
  variables \<open>downCallback\<close> and \<open>runningTimerCallbackEvent\<close> of the constructor's
  closure (\<open>None\<close> for null), and what the listener does to the outside:
  \<^item> \<open>preventDefaults\<close>: the calls of \<open>domEvent.preventDefault()\<close>;
  \<^item> \<open>actions\<close>: the calls of \<open>handleKeyDown\<close>, the action that changes the value,
    each with its event;
  \<^item> \<open>keyStates\<close>: what \<open>incrementDownEmitter\<close> (True) and \<open>decrementDownEmitter\<close>
    (False) emitted, each with the emitted flag;
  \<^item> \<open>keyUps\<close>, \<open>blurs\<close>: the calls of \<open>handleKeyUp\<close> and \<open>handleBlur\<close>.
  \<open>created\<close> numbers the function objects made by \<open>bind\<close>.
\<close>

record Spinner =
  enabledProperty :: bool
  callbackTimer :: CallbackTimer
  downCallback :: "Callback option"
  runningTimerCallbackEvent :: "KeyEvent option"
  created :: nat
  preventDefaults :: nat
  actions :: "KeyEvent list"
  keyStates :: "(bool \<times> bool) list"
  keyUps :: nat
  blurs :: nat

datatype SpinnerError = KeyShouldBeDown

definition emitKeyState :: "KeyEvent \<Rightarrow> bool \<Rightarrow> Spinner \<Rightarrow> Spinner" where
  "emitKeyState domEvent isDown s =
     (if eventCode domEvent = ArrowUp \<or> eventCode domEvent = ArrowRight
        then s\<lparr>keyStates := keyStates s @ [(True, isDown)]\<rparr>
      else if eventCode domEvent = ArrowDown \<or> eventCode domEvent = ArrowLeft
        then s\<lparr>keyStates := keyStates s @ [(False, isDown)]\<rparr>
      else s)"

text \<open>
  Modelled from the spec: \<open>handleKeyDown\<close>, \<open>handleKeyUp\<close> and \<open>handleBlur\<close> are
  methods of AccessibleValueHandler, which is not among the sources. They change the
  value and its description and do not touch the timer of this trait; the model records
  their calls.
\<close>

definition handleKeyDown :: "KeyEvent \<Rightarrow> Spinner \<Rightarrow> Spinner" where
  "handleKeyDown ev s = s\<lparr>actions := actions s @ [ev]\<rparr>"

definition handleKeyUp :: "KeyEvent \<Rightarrow> Spinner \<Rightarrow> Spinner" where
  "handleKeyUp ev s = s\<lparr>keyUps := keyUps s + 1\<rparr>"

definition handleBlur :: "Spinner \<Rightarrow> Spinner" where
  "handleBlur s = s\<lparr>blurs := blurs s + 1\<rparr>"

definition accessibleNumberSpinnerHandleKeyDown :: "KeyEvent \<Rightarrow> Spinner \<Rightarrow> Spinner" where
  "accessibleNumberSpinnerHandleKeyDown ev s = emitKeyState ev True (handleKeyDown ev s)"

text \<open>\<open>accessibleInputListener.keydown\<close>.\<close>

definition keydown :: "KeyEvent \<Rightarrow> Spinner \<Rightarrow> Spinner" where
  "keydown ev s =
     (if enabledProperty s then
        (if isRangeKey ev then
           (let s1 = s\<lparr>preventDefaults := preventDefaults s + 1\<rparr> in
            if \<not> metaKey ev then
              (if \<not> isRunning (callbackTimer s1) then
                 (let s2 = accessibleNumberSpinnerHandleKeyDown ev s1;
                      cb = (created s2, ev)
                  in s2\<lparr>created := created s2 + 1,
                        downCallback := Some cb,
                        runningTimerCallbackEvent := Some ev,
                        callbackTimer := start (addCallback cb (callbackTimer s2))\<rparr>)
               else s1)
            else s1)
         else s)
      else s)"

text \<open>\<open>accessibleInputListener.keyup\<close>.\<close>

definition keyup :: "KeyEvent \<Rightarrow> Spinner \<Rightarrow> Spinner" where
  "keyup ev s =
     (if isRangeKey ev then
        (let s1 =
           (case runningTimerCallbackEvent s of
              None \<Rightarrow> s
            | Some r \<Rightarrow>
                if eventCode ev = eventCode r then
                  (let s2 = emitKeyState ev False s in
                   s2\<lparr>callbackTimer := removeCallback (downCallback s2) (stop (callbackTimer s2)),
                      downCallback := None,
                      runningTimerCallbackEvent := None\<rparr>)
                else s)
         in handleKeyUp ev s1)
      else s)"

text \<open>
  \<open>accessibleInputListener.blur\<close>. The assertion fails when a callback is held and no
  event is recorded for it.
\<close>

definition blur :: "Spinner \<Rightarrow> SpinnerError + Spinner" where
  "blur s =
     (case downCallback s of
        None \<Rightarrow> Inr (handleBlur s)
      | Some cb \<Rightarrow>
          (case runningTimerCallbackEvent s of
             None \<Rightarrow> Inl KeyShouldBeDown
           | Some r \<Rightarrow>
               (let s1 = emitKeyState r False s in
                Inr (handleBlur
                  (s1\<lparr>callbackTimer := removeCallback (Some cb) (stop (callbackTimer s1))\<rparr>)))))"

text \<open>
  The clock moves on by \<open>dt\<close> milliseconds: the timer performs its callbacks as often
  as they fall due. Each callback is \<open>_accessibleNumberSpinnerHandleKeyDown\<close> bound to
  its event.
\<close>

fun performCallbacks :: "Callback list \<Rightarrow> Spinner \<Rightarrow> Spinner" where
  "performCallbacks [] s = s"
| "performCallbacks (cb # cbs) s =
     performCallbacks cbs (accessibleNumberSpinnerHandleKeyDown (snd cb) s)"

fun performTimes :: "nat \<Rightarrow> Callback list \<Rightarrow> Spinner \<Rightarrow> Spinner" where
  "performTimes 0 cbs s = s"
| "performTimes (Suc n) cbs s = performTimes n cbs (performCallbacks cbs s)"

definition elapse :: "nat \<Rightarrow> Spinner \<Rightarrow> Spinner" where
  "elapse dt s =
     (let t = callbackTimer s;
          s1 = performTimes (due t dt) (callbacks t) s
      in if running t
         then s1\<lparr>callbackTimer :=
                  (callbackTimer s1)\<lparr>elapsed := elapsed t + dt,
                                      performed := performed t + due t dt\<rparr>\<rparr>
         else s1)"

text \<open>
  The constructor: \<open>timerDelay\<close> and \<open>timerInterval\<close> default to 400 and 100
  milliseconds when the options leave them out.
\<close>

definition newSpinner :: "nat option \<Rightarrow> nat option \<Rightarrow> Spinner" where
  "newSpinner timerDelay timerInterval =
     \<lparr>enabledProperty = True,
      callbackTimer =
        \<lparr>delay = (case timerDelay of None \<Rightarrow> 400 | Some d \<Rightarrow> d),
         interval = (case timerInterval of None \<Rightarrow> 100 | Some i \<Rightarrow> i),
         running = False, elapsed = 0, performed = 0, callbacks = []\<rparr>,
      downCallback = None, runningTimerCallbackEvent = None, created = 0,
      preventDefaults = 0, actions = [], keyStates = [], keyUps = 0, blurs = 0\<rparr>"

text \<open>What can happen to a spinner, and a sequence of such events.\<close>

datatype SpinnerEvent =
    KeyDown KeyEvent
  | KeyUp KeyEvent
  | Blur
  | Elapse nat
  | SetEnabled bool

fun spinnerEvent :: "SpinnerEvent \<Rightarrow> Spinner \<Rightarrow> SpinnerError + Spinner" where
  "spinnerEvent (KeyDown ev) s = Inr (keydown ev s)"
| "spinnerEvent (KeyUp ev) s = Inr (keyup ev s)"
| "spinnerEvent Blur s = blur s"
| "spinnerEvent (Elapse dt) s = Inr (elapse dt s)"
| "spinnerEvent (SetEnabled b) s = Inr (s\<lparr>enabledProperty := b\<rparr>)"

fun spinnerEvents :: "SpinnerEvent list \<Rightarrow> Spinner \<Rightarrow> SpinnerError + Spinner" where
  "spinnerEvents [] s = Inr s"
| "spinnerEvents (x # xs) s =
     (case spinnerEvent x s of Inl e \<Rightarrow> Inl e | Inr s' \<Rightarrow> spinnerEvents xs s')"

text \<open>
  The bookkeeping of the repeat timer: the two closure variables are null together;
  while the timer runs, its only callback is the held one, bound to the recorded event,
  which is a range key; while the timer does not run, it has no callback.
\<close>

definition timerTracked :: "Spinner \<Rightarrow> bool" where
  "timerTracked s =
     (case downCallback s of
        None \<Rightarrow>
          runningTimerCallbackEvent s = None \<and> \<not> running (callbackTimer s) \<and>
          callbacks (callbackTimer s) = []
      | Some cb \<Rightarrow>
          (case runningTimerCallbackEvent s of
             None \<Rightarrow> False
           | Some r \<Rightarrow>
               isRangeKey r \<and>
               (if running (callbackTimer s)
                then callbacks (callbackTimer s) = [cb] \<and> snd cb = r
                else callbacks (callbackTimer s) = [])))"

section \<open>Properties\<close>

subsection \<open>Properties of the push button model\<close>

lemma pointerEvents_append:
  "pointerEvents (es @ fs) m = pointerEvents fs (pointerEvents es m)"
  by (induction es arbitrary: m) simp_all

lemma pointerEvent_frame:
  "enabled (pointerEvent e m) = enabled m \<and> fireOnDown (pointerEvent e m) = fireOnDown m"
  by (cases e) (simp_all add: set_down_def onDownTrue_def onDownFalse_def fire_def)

lemma pointerEvents_frame:
  "enabled (pointerEvents es m) = enabled m \<and> fireOnDown (pointerEvents es m) = fireOnDown m"
  by (induction es arbitrary: m) (simp_all add: pointerEvent_frame)

lemma set_down_flags:
  "down (set_down v m) = v \<and> over (set_down v m) = over m"
  by (simp add: set_down_def onDownTrue_def onDownFalse_def fire_def)

lemma pointerEvents_down:
  "down (pointerEvents es m) = pressHeld (down m) es"
proof (induction es arbitrary: m)
  case Nil
  show ?case by simp
next
  case (Cons e es)
  show ?case by (cases e) (simp_all add: Cons.IH set_down_flags)
qed

lemma pointerEvents_over:
  "over (pointerEvents es m) = pointerInside (over m) es"
proof (induction es arbitrary: m)
  case Nil
  show ?case by simp
next
  case (Cons e es)
  show ?case by (cases e) (simp_all add: Cons.IH set_down_flags)
qed

lemma pointerEvent_fires:
  "fires (pointerEvent e m) =
     fires m +
     (if enabled m \<and>
         (if fireOnDown m then e = PointerDown \<and> \<not> down m
          else e = PointerUp \<and> down m \<and> over m)
      then 1 else 0)"
  by (cases e) (auto simp add: set_down_def onDownTrue_def onDownFalse_def fire_def)

text \<open>
  C1 (as amended). For every sequence of pointer events applied to a push button model
  that is enabled (the four events never write \<open>enabled\<close>, so it stays enabled), the
  next event \<open>e\<close> fires exactly in these cases: with fireOnDown=false, when \<open>e\<close> is the
  pointerUp that matches a pending pointerDown and the pointer is inside at that moment;
  with fireOnDown=true, when \<open>e\<close> is a pointerDown that turns \<open>down\<close> from false to true.
  A pointerDown that arrives while \<open>down\<close> is already true fires nothing.
\<close>

theorem pushButton_fires_exactly:
  assumes "enabled m"
  shows "fires (pointerEvents (es @ [e]) m) =
           fires (pointerEvents es m) +
           (if (if fireOnDown m
                then e = PointerDown \<and> \<not> pressHeld (down m) es
                else e = PointerUp \<and> pressHeld (down m) es \<and> pointerInside (over m) es)
            then 1 else 0)"
proof -
  let ?s = "pointerEvents es m"
  have en: "enabled ?s" and fod: "fireOnDown ?s = fireOnDown m"
    using assms by (simp_all add: pointerEvents_frame)
  have "pointerEvents (es @ [e]) m = pointerEvent e ?s"
    by (simp add: pointerEvents_append)
  then show ?thesis
    using en fod
    by (simp add: pointerEvent_fires pointerEvents_down pointerEvents_over)
qed

text \<open>
  The theorem at a fresh model with fireOnDown=false: enter, down, up fires on the up;
  enter, down, exit, up does not.
\<close>

theorem pushButton_fires_exactly_witness:
  "enabled (newPushButtonModel False) \<and>
   fires (pointerEvents ([PointerEnter, PointerDown] @ [PointerUp]) (newPushButtonModel False)) = 1 \<and>
   fires (pointerEvents ([PointerEnter, PointerDown, PointerExit] @ [PointerUp])
            (newPushButtonModel False)) = 0"
proof -
  have en: "enabled (newPushButtonModel False)"
    by (simp add: newPushButtonModel_def onDownFalse_def)
  have z: "fires (pointerEvents [PointerEnter, PointerDown] (newPushButtonModel False)) = 0"
    "fires (pointerEvents [PointerEnter, PointerDown, PointerExit] (newPushButtonModel False)) = 0"
    by (simp_all add: newPushButtonModel_def onDownFalse_def set_down_def onDownTrue_def)
  have f: "fireOnDown (newPushButtonModel False) = False"
    "down (newPushButtonModel False) = False"
    "over (newPushButtonModel False) = False"
    by (simp_all add: newPushButtonModel_def onDownFalse_def)
  show ?thesis
    using pushButton_fires_exactly [OF en, of "[PointerEnter, PointerDown]" PointerUp]
      pushButton_fires_exactly [OF en, of "[PointerEnter, PointerDown, PointerExit]" PointerUp]
      en z f
    by simp
qed

text \<open>
  The claim as stated fails for the sequence pointerDown, pointerDown on an enabled model
  with fireOnDown=true: the model has fired once after the first event and still once
  after the second.
\<close>

theorem pushButton_second_down_counterexample:
  "enabled (pointerEvents [PointerDown] (newPushButtonModel True)) \<and>
   fires (pointerEvents [PointerDown] (newPushButtonModel True)) = 1 \<and>
   fires (pointerEvents [PointerDown, PointerDown] (newPushButtonModel True)) = 1"
  by (simp add: newPushButtonModel_def onDownFalse_def set_down_def onDownTrue_def fire_def)

text \<open>
  C2 (as amended). For every combination of the flags the derived interaction state is
  the specification's precedence order, except that pressed also needs \<open>over\<close>: when
  the model is enabled and down but the pointer is not over it, the state is idle.
\<close>

theorem interactionState_precedence:
  "interactionState m =
     (if enabled m \<and> down m \<and> \<not> over m then ''idle'' else spec_interactionState m)"
  by (simp add: interactionState_def spec_interactionState_def)

text \<open>
  The claim as stated fails at enabled=true, down=true, over=false: the code derives
  idle where the claim says pressed.
\<close>

theorem interactionState_pressed_counterexample:
  "interactionState \<lparr>over = False, down = True, enabled = True, fireOnDown = False, fires = 0\<rparr>
     = ''idle'' \<and>
   spec_interactionState
     \<lparr>over = False, down = True, enabled = True, fireOnDown = False, fires = 0\<rparr>
     = ''pressed''"
  by (simp add: interactionState_def spec_interactionState_def)

subsection \<open>Properties of the radio button interaction state\<close>

text \<open>
  C5 (as amended). For every combination of the flags and the value cell, the radio
  button interaction state is the specification's derivation with \<open>looksOver\<close> in place
  of \<open>over\<close> in the first test: the two differ exactly when \<open>over\<close> and \<open>looksOver\<close>
  differ and the button neither looks pressed nor is selected, and then the code reports
  OVER if \<open>looksOver\<close> holds and DESELECTED otherwise.
\<close>

theorem radioInteractionState_derivation:
  "RadioButtonInteractionStateProperty b pv v =
     (if overProperty b \<noteq> looksOverProperty b \<and> \<not> looksPressedProperty b \<and> pv \<noteq> v
      then (if looksOverProperty b then OVER else DESELECTED)
      else spec_radioInteractionState b pv v)"
  by (auto simp add: RadioButtonInteractionStateProperty_def spec_radioInteractionState_def)

text \<open>
  The claim as stated fails at over=true, looksOver=false, looksPressed=false on a button
  that is not selected: the code reports DESELECTED where the claim says OVER.
\<close>

theorem radioInteractionState_over_counterexample:
  "RadioButtonInteractionStateProperty
     \<lparr>focusedProperty = False, overProperty = True, looksOverProperty = False,
      looksPressedProperty = False\<rparr> (1::nat) 2 = DESELECTED \<and>
   spec_radioInteractionState
     \<lparr>focusedProperty = False, overProperty = True, looksOverProperty = False,
      looksPressedProperty = False\<rparr> (1::nat) 2 = OVER"
  by (simp add: RadioButtonInteractionStateProperty_def spec_radioInteractionState_def)

lemma radio_SELECTED_iff:
  "RadioButtonInteractionStateProperty b pv v = SELECTED \<longleftrightarrow>
     pv = v \<and> \<not> ((overProperty b \<or> focusedProperty b) \<and> looksPressedProperty b)"
  by (auto simp add: RadioButtonInteractionStateProperty_def Let_def split: if_splits)

lemma radio_own_value:
  "RadioButtonInteractionStateProperty b pv pv =
     (if (overProperty b \<or> focusedProperty b) \<and> looksPressedProperty b
      then PRESSED else SELECTED)"
  by (simp add: RadioButtonInteractionStateProperty_def)

lemma selectedCount_Nil: "selectedCount [] pv = 0"
  by (simp add: selectedCount_def groupStates_def)

lemma selectedCount_Cons:
  "selectedCount ((b, v) # ms) pv =
     (if RadioButtonInteractionStateProperty b pv v = SELECTED then 1 else 0) + selectedCount ms pv"
  by (simp add: selectedCount_def groupStates_def)

lemma selectedCount_absent:
  "pv \<notin> snd ` set ms \<Longrightarrow> selectedCount ms pv = 0"
proof (induction ms)
  case Nil
  show ?case by (simp add: selectedCount_Nil)
next
  case (Cons m ms)
  obtain b v where m: "m = (b, v)" by (cases m)
  from Cons.prems m have "pv \<noteq> v" and "pv \<notin> snd ` set ms" by auto
  with Cons.IH m show ?case
    by (simp add: selectedCount_Cons radio_SELECTED_iff)
qed

lemma selectedCount_member:
  "distinct (map snd ms) \<Longrightarrow> (b, pv) \<in> set ms \<Longrightarrow>
   selectedCount ms pv =
     (if (overProperty b \<or> focusedProperty b) \<and> looksPressedProperty b then 0 else 1)"
proof (induction ms)
  case Nil
  then show ?case by simp
next
  case (Cons m ms)
  obtain b' v where m: "m = (b', v)" by (cases m)
  show ?case
  proof (cases "(b, pv) \<in> set ms")
    case True
    with Cons.prems m have "v \<noteq> pv" by force
    with Cons.IH Cons.prems True m show ?thesis
      by (simp add: selectedCount_Cons radio_SELECTED_iff)
  next
    case False
    with Cons.prems m have eq: "b' = b" "v = pv" by auto
    from Cons.prems m eq have "pv \<notin> snd ` set ms" by simp
    then have "selectedCount ms pv = 0" by (rule selectedCount_absent)
    with m eq show ?thesis
      by (simp add: selectedCount_Cons radio_SELECTED_iff)
  qed
qed

lemma selectedCount_le_1:
  "distinct (map snd ms) \<Longrightarrow> selectedCount ms pv \<le> 1"
proof (cases "pv \<in> snd ` set ms")
  case True
  assume d: "distinct (map snd ms)"
  from True obtain b where "(b, pv) \<in> set ms" by force
  from selectedCount_member [OF d this] show ?thesis by simp
next
  case False
  then show ?thesis by (simp add: selectedCount_absent)
qed

text \<open>
  C6 (as amended). In a group whose members have pairwise distinct values and read one
  value cell, at most one member reports SELECTED, whatever the flags and the cell hold.
  When the cell holds the value of a member, that member reports SELECTED, and is the
  only one to do so, unless it looks pressed while the pointer is over it or it has
  focus: then it reports PRESSED and no member of the group reports SELECTED.
\<close>

theorem radioGroup_selected:
  assumes "distinct (map snd members)"
  shows "selectedCount members pv \<le> 1 \<and>
         (\<forall>b. (b, pv) \<in> set members \<longrightarrow>
            RadioButtonInteractionStateProperty b pv pv =
              (if (overProperty b \<or> focusedProperty b) \<and> looksPressedProperty b
               then PRESSED else SELECTED) \<and>
            selectedCount members pv =
              (if (overProperty b \<or> focusedProperty b) \<and> looksPressedProperty b
               then 0 else 1))"
proof -
  have "selectedCount members pv \<le> 1"
    using assms by (rule selectedCount_le_1)
  moreover have "selectedCount members pv =
      (if (overProperty b \<or> focusedProperty b) \<and> looksPressedProperty b then 0 else 1)"
    if "(b, pv) \<in> set members" for b
    using assms that by (rule selectedCount_member)
  ultimately show ?thesis
    by (simp add: radio_own_value)
qed

text \<open>
  The theorem at a group of two buttons for the values 1 and 2, the second focused, with
  the cell at 2.
\<close>

theorem radioGroup_selected_witness:
  "distinct (map snd
     [(\<lparr>focusedProperty = False, overProperty = False, looksOverProperty = False,
       looksPressedProperty = False\<rparr>, 1::nat),
      (\<lparr>focusedProperty = True, overProperty = False, looksOverProperty = False,
       looksPressedProperty = False\<rparr>, 2)]) \<and>
   (\<lparr>focusedProperty = True, overProperty = False, looksOverProperty = False,
       looksPressedProperty = False\<rparr>, 2) \<in> set
     [(\<lparr>focusedProperty = False, overProperty = False, looksOverProperty = False,
       looksPressedProperty = False\<rparr>, 1::nat),
      (\<lparr>focusedProperty = True, overProperty = False, looksOverProperty = False,
       looksPressedProperty = False\<rparr>, 2)] \<and>
   selectedCount
     [(\<lparr>focusedProperty = False, overProperty = False, looksOverProperty = False,
       looksPressedProperty = False\<rparr>, 1::nat),
      (\<lparr>focusedProperty = True, overProperty = False, looksOverProperty = False,
       looksPressedProperty = False\<rparr>, 2)] 2 = 1"
  using radioGroup_selected [of
     "[(\<lparr>focusedProperty = False, overProperty = False, looksOverProperty = False,
       looksPressedProperty = False\<rparr>, 1::nat),
      (\<lparr>focusedProperty = True, overProperty = False, looksOverProperty = False,
       looksPressedProperty = False\<rparr>, 2)]" 2]
  by simp

text \<open>
  The claim as stated fails for a group of two buttons for the values 1 and 2 with the
  cell at 1, while the first button is pressed with the pointer over it: the reports are
  PRESSED and DESELECTED, and no member reports SELECTED.
\<close>

theorem radioGroup_pressed_counterexample:
  "distinct (map snd
     [(\<lparr>focusedProperty = False, overProperty = True, looksOverProperty = True,
       looksPressedProperty = True\<rparr>, 1::nat),
      (\<lparr>focusedProperty = False, overProperty = False, looksOverProperty = False,
       looksPressedProperty = False\<rparr>, 2)]) \<and>
   1 \<in> snd ` set
     [(\<lparr>focusedProperty = False, overProperty = True, looksOverProperty = True,
       looksPressedProperty = True\<rparr>, 1::nat),
      (\<lparr>focusedProperty = False, overProperty = False, looksOverProperty = False,
       looksPressedProperty = False\<rparr>, 2)] \<and>
   groupStates
     [(\<lparr>focusedProperty = False, overProperty = True, looksOverProperty = True,
       looksPressedProperty = True\<rparr>, 1::nat),
      (\<lparr>focusedProperty = False, overProperty = False, looksOverProperty = False,
       looksPressedProperty = False\<rparr>, 2)] 1 = [PRESSED, DESELECTED] \<and>
   selectedCount
     [(\<lparr>focusedProperty = False, overProperty = True, looksOverProperty = True,
       looksPressedProperty = True\<rparr>, 1::nat),
      (\<lparr>focusedProperty = False, overProperty = False, looksOverProperty = False,
       looksPressedProperty = False\<rparr>, 2)] 1 = 0"
  by (simp add: selectedCount_def groupStates_def RadioButtonInteractionStateProperty_def)

subsection \<open>Properties of AquaRadioButton\<close>

lemma property_set_value: "propertyValue (property_set v b) = v"
  by (simp add: property_set_def pdomCheckedListener_def syncWithModel_def)

lemma property_set_frame:
  "buttonValue (property_set v b) = buttonValue b \<and>
   soundPlays (property_set v b) = soundPlays b"
  by (simp add: property_set_def pdomCheckedListener_def syncWithModel_def)

lemma activate_aquaFire: "activate a b = aquaFire b"
  by (cases a) simp_all

text \<open>
  C10. Every activation, by pointer or by the keyboard's change event, leaves the
  Property at the button's value and plays the sound once, whether or not the button was
  selected before; activating a selected button leaves the Property as it was; and after
  a second activation the Property is what it was after the first (the sound has then
  played twice).
\<close>

theorem aquaRadioButton_activation:
  "propertyValue (activate a b) = buttonValue b \<and>
   soundPlays (activate a b) = soundPlays b + 1 \<and>
   (propertyValue b = buttonValue b \<longrightarrow> propertyValue (activate a b) = propertyValue b) \<and>
   propertyValue (activate a' (activate a b)) = propertyValue (activate a b) \<and>
   soundPlays (activate a' (activate a b)) = soundPlays b + 2"
  by (simp add: activate_aquaFire aquaFire_def Let_def property_set_value property_set_frame)

text \<open>
  The theorem at a button for the value 5: bound to a Property that holds 5 already, and
  bound to one that holds 3.
\<close>

theorem aquaRadioButton_activation_witness:
  "propertyValue (newAquaRadioButton (5::nat) 5) = buttonValue (newAquaRadioButton (5::nat) 5) \<and>
   propertyValue (activate KeyboardChange (newAquaRadioButton (5::nat) 5)) = 5 \<and>
   soundPlays (activate KeyboardChange (newAquaRadioButton (5::nat) 5)) = 1 \<and>
   propertyValue (activate PointerFire (newAquaRadioButton (3::nat) 5)) = 5"
proof -
  have v: "buttonValue (newAquaRadioButton (5::nat) 5) = 5"
    "propertyValue (newAquaRadioButton (5::nat) 5) = 5"
    "soundPlays (newAquaRadioButton (5::nat) 5) = 0"
    "buttonValue (newAquaRadioButton (3::nat) 5) = 5"
    by (simp_all add: newAquaRadioButton_def pdomCheckedListener_def syncWithModel_def)
  show ?thesis
    using aquaRadioButton_activation [of KeyboardChange "newAquaRadioButton (5::nat) 5" PointerFire]
      aquaRadioButton_activation [of PointerFire "newAquaRadioButton (3::nat) 5" PointerFire] v
    by simp
qed

subsection \<open>Properties of ComboBox\<close>

lemma visibleChanged_show:
  assumes "display c = None"
  shows "visibleChanged True c =
     (case rootedDisplays c of
        [] \<Rightarrow> Inl (NoRootedDisplay, c\<lparr>display := None\<rparr>)
      | d # _ \<Rightarrow> Inr (c\<lparr>display := Some d,
                          dismissListenerOn := insert d (dismissListenerOn c)\<rparr>))"
  using assms by (simp add: visibleChanged_def)

lemma visibleChanged_hide:
  assumes "display c = Some d" and "dismissListenerOn c = {d}"
  shows "visibleChanged False c =
     Inr (c\<lparr>dismissListenerOn := {}, removeCalls := removeCalls c + 1, display := None\<rparr>)"
  using assms by (simp add: visibleChanged_def)

lemma setListBoxVisible_tracked:
  assumes t: "dismissListenerTracked c" and r: "setListBoxVisible vis c = Inr c'"
  shows "dismissListenerTracked c'"
proof (cases "listBoxVisible c = vis")
  case True
  with r have "c' = c" by (simp add: setListBoxVisible_def)
  with t show ?thesis by simp
next
  case False
  show ?thesis
  proof (cases vis)
    case True
    with False t have d: "display c = None" and l: "dismissListenerOn c = {}"
      by (simp_all add: dismissListenerTracked_def)
    from d have d': "display (c\<lparr>listBoxVisible := True\<rparr>) = None" by simp
    show ?thesis
    proof (cases "rootedDisplays c")
      case Nil
      with r False True d' show ?thesis
        by (simp add: setListBoxVisible_def visibleChanged_show)
    next
      case (Cons x xs)
      with r False True d' l
      have "c' = c\<lparr>listBoxVisible := True, display := Some x, dismissListenerOn := {x}\<rparr>"
        by (simp add: setListBoxVisible_def visibleChanged_show)
      then show ?thesis by (simp add: dismissListenerTracked_def)
    qed
  next
    case vf: False
    with False have v: "listBoxVisible c" by simp
    with t obtain d where d: "display c = Some d" and l: "dismissListenerOn c = {d}"
      by (cases "display c") (simp_all add: dismissListenerTracked_def)
    have "visibleChanged False (c\<lparr>listBoxVisible := False\<rparr>) =
        Inr (c\<lparr>listBoxVisible := False, dismissListenerOn := {},
               removeCalls := removeCalls c + 1, display := None\<rparr>)"
      using d l by (simp add: visibleChanged_def)
    with r vf v
    have "c' = c\<lparr>listBoxVisible := False, dismissListenerOn := {},
               removeCalls := removeCalls c + 1, display := None\<rparr>"
      by (simp add: setListBoxVisible_def)
    then show ?thesis by (simp add: dismissListenerTracked_def)
  qed
qed

lemma hideListBox_tracked:
  "dismissListenerTracked c \<Longrightarrow> hideListBox c = Inr c' \<Longrightarrow> dismissListenerTracked c'"
  unfolding hideListBox_def by (rule setListBoxVisible_tracked)

lemma rootedDisplays_tracked:
  "dismissListenerTracked c \<Longrightarrow> dismissListenerTracked (c\<lparr>rootedDisplays := ds\<rparr>)"
  by (simp add: dismissListenerTracked_def split: option.splits if_splits)

lemma displayOnly_tracked:
  "dismissListenerTracked c \<Longrightarrow> dismissListenerTracked (c\<lparr>displayOnly := b\<rparr>)"
  by (simp add: dismissListenerTracked_def split: option.splits if_splits)

lemma clickToDismiss_tracked:
  assumes t: "dismissListenerTracked c"
    and r: "clickToDismissListener_down fz nd trail c = Inr c'"
  shows "dismissListenerTracked c'"
proof (cases "(\<not> fz \<or> nd < 5 / 1000) \<and> \<not> (ButtonNode \<in> set trail \<or> ListBoxNode \<in> set trail)")
  case True
  with r have "hideListBox c = Inr c'" by (simp add: clickToDismissListener_down_def)
  with t show ?thesis by (rule hideListBox_tracked)
next
  case False
  with r have "c' = c" by (auto simp add: clickToDismissListener_down_def split: if_splits)
  with t show ?thesis by simp
qed

lemma dismissWithFocus_tracked:
  assumes t: "dismissListenerTracked c" and r: "dismissWithFocusListener focus c = Inr c'"
  shows "dismissListenerTracked c'"
proof (cases focus)
  case None
  with r have "c' = c" by (simp add: dismissWithFocusListener_def)
  with t show ?thesis by simp
next
  case (Some trail)
  show ?thesis
  proof (cases "ListBoxNode \<in> set trail")
    case True
    with r Some have "c' = c" by (simp add: dismissWithFocusListener_def)
    with t show ?thesis by simp
  next
    case False
    with r Some have "hideListBox c = Inr c'" by (simp add: dismissWithFocusListener_def)
    with t show ?thesis by (rule hideListBox_tracked)
  qed
qed

lemma setDisplayOnly_tracked:
  assumes t: "dismissListenerTracked c" and r: "setDisplayOnly b c = Inr c'"
  shows "dismissListenerTracked c'"
proof (cases "displayOnly c = b")
  case True
  with r have "c' = c" by (simp add: setDisplayOnly_def)
  with t show ?thesis by simp
next
  case False
  with r have "hideListBox (c\<lparr>displayOnly := b\<rparr>) = Inr c'" by (simp add: setDisplayOnly_def)
  with displayOnly_tracked [OF t] show ?thesis by (rule hideListBox_tracked)
qed

lemma comboBoxOp_tracked:
  assumes t: "dismissListenerTracked c" and r: "comboBoxOp x c = Inr c'"
  shows "dismissListenerTracked c'"
proof (cases x)
  case ShowListBox
  with r have "setListBoxVisible True c = Inr c'" by (simp add: showListBox_def)
  with t show ?thesis by (rule setListBoxVisible_tracked)
next
  case HideListBox
  with r have "hideListBox c = Inr c'" by simp
  with t show ?thesis by (rule hideListBox_tracked)
next
  case ButtonFired
  with r have "setListBoxVisible (\<not> listBoxVisible c) c = Inr c'"
    by (simp add: buttonListener_def)
  with t show ?thesis by (rule setListBoxVisible_tracked)
next
  case (RootPointerDown d fz nd trail)
  show ?thesis
  proof (cases "d \<in> dismissListenerOn c")
    case True
    with r RootPointerDown have "clickToDismissListener_down fz nd trail c = Inr c'" by simp
    with t show ?thesis by (rule clickToDismiss_tracked)
  next
    case False
    with r RootPointerDown have "c' = c" by simp
    with t show ?thesis by simp
  qed
next
  case (PdomFocus focus)
  with r have "dismissWithFocusListener focus c = Inr c'" by simp
  with t show ?thesis by (rule dismissWithFocus_tracked)
next
  case (SetDisplayOnly b)
  with r have "setDisplayOnly b c = Inr c'" by simp
  with t show ?thesis by (rule setDisplayOnly_tracked)
next
  case (SceneChanged ds)
  with r have "c' = c\<lparr>rootedDisplays := ds\<rparr>" by simp
  with t show ?thesis by (simp add: rootedDisplays_tracked)
qed

lemma comboBoxOps_tracked:
  "dismissListenerTracked c \<Longrightarrow> comboBoxOps xs c = Inr c' \<Longrightarrow> dismissListenerTracked c'"
proof (induction xs arbitrary: c)
  case Nil
  then show ?case by simp
next
  case (Cons x xs)
  show ?case
  proof (cases "comboBoxOp x c")
    case (Inl e)
    with Cons.prems(2) show ?thesis by simp
  next
    case (Inr c1)
    with Cons.prems(2) have rest: "comboBoxOps xs c1 = Inr c'" by simp
    from Cons.prems(1) Inr have "dismissListenerTracked c1" by (rule comboBoxOp_tracked)
    then show ?thesis using rest by (rule Cons.IH)
  qed
qed

lemma newComboBox_eq:
  "newComboBox rooted =
     Inr \<lparr>listBoxVisible = False, display = None, dismissListenerOn = {},
          displayOnly = False, rootedDisplays = rooted, removeCalls = 0\<rparr>"
  by (simp add: newComboBox_def visibleChanged_def hideListBox_def setListBoxVisible_def)

lemma comboBoxState_tracked:
  assumes "comboBoxState rooted xs = Inr c"
  shows "dismissListenerTracked c"
proof -
  let ?c0 = "\<lparr>listBoxVisible = False, display = None, dismissListenerOn = {},
          displayOnly = False, rootedDisplays = rooted, removeCalls = 0\<rparr>"
  have "dismissListenerTracked ?c0"
    by (simp add: dismissListenerTracked_def)
  moreover from assms have "comboBoxOps xs ?c0 = Inr c"
    by (simp add: comboBoxState_def newComboBox_eq)
  ultimately show ?thesis by (rule comboBoxOps_tracked)
qed

lemma leftBy_simps:
  "leftBy (Inr c) = c" "leftBy (Inl (e, c)) = c"
  by (simp_all add: leftBy_def)

lemma setListBoxVisible_safe:
  assumes t: "dismissListenerSafe c"
  shows "dismissListenerSafe (leftBy (setListBoxVisible vis c))"
proof (cases "listBoxVisible c = vis")
  case True
  with t show ?thesis by (simp add: setListBoxVisible_def leftBy_simps)
next
  case False
  show ?thesis
  proof (cases vis)
    case True
    with False have h: "\<not> listBoxVisible c" by simp
    with t have d: "display c = None" and l: "dismissListenerOn c = {}"
      by (cases "display c"; simp add: dismissListenerSafe_def)+
    from d have d': "display (c\<lparr>listBoxVisible := True\<rparr>) = None" by simp
    show ?thesis
    proof (cases "rootedDisplays c")
      case Nil
      with h True d' l show ?thesis
        by (simp add: setListBoxVisible_def visibleChanged_show leftBy_simps
            dismissListenerSafe_def)
    next
      case (Cons x xs)
      with h True d' l show ?thesis
        by (simp add: setListBoxVisible_def visibleChanged_show leftBy_simps
            dismissListenerSafe_def)
    qed
  next
    case vf: False
    with False have v: "listBoxVisible c" by simp
    show ?thesis
    proof (cases "display c")
      case None
      with t have "dismissListenerOn c = {}" by (simp add: dismissListenerSafe_def)
      with None v vf show ?thesis
        by (simp add: setListBoxVisible_def visibleChanged_def leftBy_simps
            dismissListenerSafe_def)
    next
      case (Some d)
      with t have "dismissListenerOn c = {d}" by (simp add: dismissListenerSafe_def)
      with Some v vf show ?thesis
        by (simp add: setListBoxVisible_def visibleChanged_def leftBy_simps
            dismissListenerSafe_def)
    qed
  qed
qed

lemma hideListBox_safe:
  "dismissListenerSafe c \<Longrightarrow> dismissListenerSafe (leftBy (hideListBox c))"
  unfolding hideListBox_def by (rule setListBoxVisible_safe)

lemma displayOnly_safe:
  "dismissListenerSafe c \<Longrightarrow> dismissListenerSafe (c\<lparr>displayOnly := b\<rparr>)"
  by (simp add: dismissListenerSafe_def split: option.splits)

lemma rootedDisplays_safe:
  "dismissListenerSafe c \<Longrightarrow> dismissListenerSafe (c\<lparr>rootedDisplays := ds\<rparr>)"
  by (simp add: dismissListenerSafe_def split: option.splits)

lemma comboBoxOp_safe:
  assumes t: "dismissListenerSafe c"
  shows "dismissListenerSafe (leftBy (comboBoxOp x c))"
proof (cases x)
  case ShowListBox
  with t show ?thesis by (simp add: showListBox_def setListBoxVisible_safe)
next
  case HideListBox
  with t show ?thesis by (simp add: hideListBox_safe)
next
  case ButtonFired
  with t show ?thesis by (simp add: buttonListener_def setListBoxVisible_safe)
next
  case (RootPointerDown d fz nd trail)
  with t show ?thesis
    by (simp add: clickToDismissListener_down_def hideListBox_safe leftBy_simps)
next
  case (PdomFocus focus)
  with t show ?thesis
    by (cases focus) (simp_all add: dismissWithFocusListener_def hideListBox_safe leftBy_simps)
next
  case (SetDisplayOnly b)
  with t show ?thesis
    by (simp add: setDisplayOnly_def hideListBox_safe displayOnly_safe leftBy_simps)
next
  case (SceneChanged ds)
  with t show ?thesis by (simp add: rootedDisplays_safe leftBy_simps)
qed

lemma comboBoxLife_safe:
  "dismissListenerSafe c \<Longrightarrow> dismissListenerSafe (comboBoxLife xs c)"
  by (induction xs arbitrary: c) (simp_all add: comboBoxOp_safe)

lemma comboBoxAfter_safe: "dismissListenerSafe (comboBoxAfter rooted xs)"
proof -
  have "dismissListenerSafe (leftBy (newComboBox rooted))"
    by (simp add: newComboBox_eq leftBy_simps dismissListenerSafe_def)
  then show ?thesis unfolding comboBoxAfter_def by (rule comboBoxLife_safe)
qed

lemma comboBoxOps_life:
  "comboBoxOps xs c = Inr c' \<Longrightarrow> comboBoxLife xs c = c'"
proof (induction xs arbitrary: c)
  case Nil
  then show ?case by simp
next
  case (Cons x xs)
  show ?case
  proof (cases "comboBoxOp x c")
    case (Inl e)
    with Cons.prems show ?thesis by simp
  next
    case (Inr c1)
    with Cons.prems have "comboBoxOps xs c1 = Inr c'" by simp
    then have "comboBoxLife xs c1 = c'" by (rule Cons.IH)
    with Inr show ?thesis by (simp add: leftBy_simps)
  qed
qed

lemma comboBoxState_after:
  "comboBoxState rooted xs = Inr c \<Longrightarrow> comboBoxAfter rooted xs = c"
  by (simp add: comboBoxState_def comboBoxAfter_def newComboBox_eq leftBy_simps comboBoxOps_life)

text \<open>
  C3 (as amended). In every state of a ComboBox, also after operations that raised, the
  click-to-dismiss listener is on a display only while the list box is visible, and then
  on exactly one display, the tracked one; while the list box is hidden the listener is
  on no display and no display is tracked. In every state of a ComboBox none of whose
  operations raised, the listener is on a display if and only if the list box is
  visible. (A show that finds no rooted display raises when the list box is already
  visible and leaves the listener on no display.)
\<close>

theorem comboBox_dismissListener_invariant:
  "(dismissListenerOn (comboBoxAfter rooted xs) \<noteq> {} \<longrightarrow>
      listBoxVisible (comboBoxAfter rooted xs) \<and>
      (\<exists>d. dismissListenerOn (comboBoxAfter rooted xs) = {d} \<and>
           display (comboBoxAfter rooted xs) = Some d)) \<and>
   (\<not> listBoxVisible (comboBoxAfter rooted xs) \<longrightarrow>
      dismissListenerOn (comboBoxAfter rooted xs) = {} \<and>
      display (comboBoxAfter rooted xs) = None) \<and>
   (\<forall>c. comboBoxState rooted xs = Inr c \<longrightarrow>
      comboBoxAfter rooted xs = c \<and>
      (dismissListenerOn c \<noteq> {} \<longleftrightarrow> listBoxVisible c) \<and>
      (listBoxVisible c \<longrightarrow> (\<exists>d. dismissListenerOn c = {d} \<and> display c = Some d)))"
proof -
  let ?a = "comboBoxAfter rooted xs"
  have safe: "dismissListenerSafe ?a" by (rule comboBoxAfter_safe)
  have always: "(dismissListenerOn ?a \<noteq> {} \<longrightarrow>
      listBoxVisible ?a \<and> (\<exists>d. dismissListenerOn ?a = {d} \<and> display ?a = Some d)) \<and>
    (\<not> listBoxVisible ?a \<longrightarrow> dismissListenerOn ?a = {} \<and> display ?a = None)"
  proof (cases "display ?a")
    case None
    with safe show ?thesis by (simp add: dismissListenerSafe_def)
  next
    case (Some d)
    with safe show ?thesis by (simp add: dismissListenerSafe_def)
  qed
  have unraised: "?a = c \<and> (dismissListenerOn c \<noteq> {} \<longleftrightarrow> listBoxVisible c) \<and>
      (listBoxVisible c \<longrightarrow> (\<exists>d. dismissListenerOn c = {d} \<and> display c = Some d))"
    if r: "comboBoxState rooted xs = Inr c" for c
  proof -
    have t: "dismissListenerTracked c" using r by (rule comboBoxState_tracked)
    have eq: "?a = c" using r by (rule comboBoxState_after)
    show ?thesis
    proof (cases "listBoxVisible c")
      case False
      with t eq show ?thesis by (simp add: dismissListenerTracked_def)
    next
      case True
      with t obtain d where "display c = Some d" and "dismissListenerOn c = {d}"
        by (cases "display c") (simp_all add: dismissListenerTracked_def)
      with True eq show ?thesis by simp
    qed
  qed
  from always unraised show ?thesis by blast
qed

lemma comboBox_open_example:
  "comboBoxState [7, 8] [ButtonFired] =
     Inr \<lparr>listBoxVisible = True, display = Some 7, dismissListenerOn = {7},
          displayOnly = False, rootedDisplays = [7, 8], removeCalls = 0\<rparr>"
  by (simp add: comboBoxState_def newComboBox_eq buttonListener_def setListBoxVisible_def
      visibleChanged_def)

text \<open>
  The theorem at a combo box rooted in the displays 7 and 8, after the button fired.
\<close>

theorem comboBox_dismissListener_invariant_witness:
  "comboBoxState [7, 8] [ButtonFired] =
     Inr \<lparr>listBoxVisible = True, display = Some 7, dismissListenerOn = {7},
      displayOnly = False, rootedDisplays = [7, 8], removeCalls = 0\<rparr> \<and>
   comboBoxAfter [7, 8] [ButtonFired] =
     \<lparr>listBoxVisible = True, display = Some 7, dismissListenerOn = {7},
      displayOnly = False, rootedDisplays = [7, 8], removeCalls = 0\<rparr> \<and>
   listBoxVisible (comboBoxAfter [7, 8] [ButtonFired]) \<and>
   dismissListenerOn (comboBoxAfter [7, 8] [ButtonFired]) = {7} \<and>
   display (comboBoxAfter [7, 8] [ButtonFired]) = Some 7"
  using comboBox_dismissListener_invariant [of "[7, 8]" "[ButtonFired]"] comboBox_open_example
  by simp

text \<open>
  The claim as stated fails for a combo box that is rooted in no display: the show
  raises, and the combo box it leaves has its list box visible and the listener on no
  display.
\<close>

theorem comboBox_show_unrooted_counterexample:
  "comboBoxOp ShowListBox (leftBy (newComboBox [])) =
     Inl (NoRootedDisplay,
       \<lparr>listBoxVisible = True, display = None, dismissListenerOn = {},
      displayOnly = False, rootedDisplays = [], removeCalls = 0\<rparr>) \<and>
   comboBoxAfter [] [ShowListBox] =
     \<lparr>listBoxVisible = True, display = None, dismissListenerOn = {},
      displayOnly = False, rootedDisplays = [], removeCalls = 0\<rparr> \<and>
   listBoxVisible (comboBoxAfter [] [ShowListBox]) \<and>
   dismissListenerOn (comboBoxAfter [] [ShowListBox]) = {}"
  by (simp add: comboBoxAfter_def newComboBox_eq leftBy_simps showListBox_def
      setListBoxVisible_def visibleChanged_def)

text \<open>
  C7 (as amended). While the list box is open, a pointer down whose trail contains
  neither the button nor the list box closes the list box, removes the dismiss listener
  from its display (one call of removeInputListener) and clears the tracked display,
  provided fuzzing is off or the fuzz draw is below 0.005; a pointer down whose trail
  contains the button or the list box leaves the combo box as it is.
\<close>

theorem clickToDismiss_outside_closes:
  assumes "comboBoxState rooted xs = Inr c" and "listBoxVisible c"
  shows "((\<not> fuzzEnabled \<or> nextDouble < 5 / 1000) \<and>
           ButtonNode \<notin> set trail \<and> ListBoxNode \<notin> set trail \<longrightarrow>
           clickToDismissListener_down fuzzEnabled nextDouble trail c =
             Inr (c\<lparr>listBoxVisible := False, dismissListenerOn := {},
                    removeCalls := removeCalls c + 1, display := None\<rparr>)) \<and>
         (ButtonNode \<in> set trail \<or> ListBoxNode \<in> set trail \<longrightarrow>
           clickToDismissListener_down fuzzEnabled nextDouble trail c = Inr c)"
proof -
  have t: "dismissListenerTracked c" using assms(1) by (rule comboBoxState_tracked)
  with assms(2) obtain d where d: "display c = Some d" and l: "dismissListenerOn c = {d}"
    by (cases "display c") (simp_all add: dismissListenerTracked_def)
  have "visibleChanged False (c\<lparr>listBoxVisible := False\<rparr>) =
        Inr (c\<lparr>listBoxVisible := False, dismissListenerOn := {},
               removeCalls := removeCalls c + 1, display := None\<rparr>)"
    using d l by (simp add: visibleChanged_def)
  with assms(2) have h: "hideListBox c =
        Inr (c\<lparr>listBoxVisible := False, dismissListenerOn := {},
               removeCalls := removeCalls c + 1, display := None\<rparr>)"
    by (simp add: hideListBox_def setListBoxVisible_def)
  show ?thesis
    by (simp add: clickToDismissListener_down_def h)
qed

text \<open>
  The theorem at the open combo box above, fuzzing off: a trail outside closes it, a
  trail through the list box does not.
\<close>

theorem clickToDismiss_outside_closes_witness:
  "comboBoxState [7, 8] [ButtonFired] =
     Inr \<lparr>listBoxVisible = True, display = Some 7, dismissListenerOn = {7},
          displayOnly = False, rootedDisplays = [7, 8], removeCalls = 0\<rparr> \<and>
   clickToDismissListener_down False (1 / 2) [OtherNode 1, OtherNode 2]
     \<lparr>listBoxVisible = True, display = Some 7, dismissListenerOn = {7},
      displayOnly = False, rootedDisplays = [7, 8], removeCalls = 0\<rparr> =
     Inr \<lparr>listBoxVisible = False, display = None, dismissListenerOn = {},
          displayOnly = False, rootedDisplays = [7, 8], removeCalls = 1\<rparr> \<and>
   clickToDismissListener_down False (1 / 2) [OtherNode 1, ListBoxNode]
     \<lparr>listBoxVisible = True, display = Some 7, dismissListenerOn = {7},
      displayOnly = False, rootedDisplays = [7, 8], removeCalls = 0\<rparr> =
     Inr \<lparr>listBoxVisible = True, display = Some 7, dismissListenerOn = {7},
          displayOnly = False, rootedDisplays = [7, 8], removeCalls = 0\<rparr>"
  using clickToDismiss_outside_closes [OF comboBox_open_example, of False "1 / 2"
      "[OtherNode 1, OtherNode 2]"]
    clickToDismiss_outside_closes [OF comboBox_open_example, of False "1 / 2"
      "[OtherNode 1, ListBoxNode]"]
    comboBox_open_example
  by simp

text \<open>
  The claim as stated fails while fuzzing is enabled: with the draw 1/2 a pointer down
  outside the button and the list box leaves the list box open and the listener attached.
\<close>

theorem clickToDismiss_fuzz_counterexample:
  "comboBoxState [7, 8] [ButtonFired] =
     Inr \<lparr>listBoxVisible = True, display = Some 7, dismissListenerOn = {7},
          displayOnly = False, rootedDisplays = [7, 8], removeCalls = 0\<rparr> \<and>
   ButtonNode \<notin> set [OtherNode 1, OtherNode 2] \<and>
   ListBoxNode \<notin> set [OtherNode 1, OtherNode 2] \<and>
   clickToDismissListener_down True (1 / 2) [OtherNode 1, OtherNode 2]
     \<lparr>listBoxVisible = True, display = Some 7, dismissListenerOn = {7},
      displayOnly = False, rootedDisplays = [7, 8], removeCalls = 0\<rparr> =
     Inr \<lparr>listBoxVisible = True, display = Some 7, dismissListenerOn = {7},
          displayOnly = False, rootedDisplays = [7, 8], removeCalls = 0\<rparr>"
  by (simp add: comboBox_open_example clickToDismissListener_down_def)

text \<open>
  C8. On a combo box whose list box is hidden, \<open>hideListBox\<close> changes nothing, and
  neither does calling it a second time: no listener is removed and nothing is raised.
  More generally, whatever state a call of \<open>hideListBox\<close> leaves behind, a second call
  leaves it unchanged.
\<close>

theorem hideListBox_idempotent:
  "(\<not> listBoxVisible c \<longrightarrow>
      hideListBox c = Inr c \<and>
      (case hideListBox c of Inl e \<Rightarrow> Inl e | Inr c' \<Rightarrow> hideListBox c') = Inr c) \<and>
   (\<forall>c'. hideListBox c = Inr c' \<longrightarrow> hideListBox c' = Inr c')"
proof -
  have closed: "hideListBox k = Inr k" if "\<not> listBoxVisible k" for k
    using that by (simp add: hideListBox_def setListBoxVisible_def)
  have "\<not> listBoxVisible c'" if r: "hideListBox c = Inr c'" for c'
  proof (cases "listBoxVisible c")
    case False
    with r closed [of c] show ?thesis by simp
  next
    case True
    with r have v: "visibleChanged False (c\<lparr>listBoxVisible := False\<rparr>) = Inr c'"
      by (simp add: hideListBox_def setListBoxVisible_def)
    show ?thesis
    proof (cases "display c")
      case None
      with v show ?thesis by (auto simp add: visibleChanged_def)
    next
      case (Some d)
      with v show ?thesis by (auto simp add: visibleChanged_def split: if_splits)
    qed
  qed
  with closed show ?thesis by simp
qed

text \<open>The theorem at a closed combo box.\<close>

theorem hideListBox_idempotent_witness:
  "\<not> listBoxVisible \<lparr>listBoxVisible = False, display = None, dismissListenerOn = {},
          displayOnly = False, rootedDisplays = [7, 8], removeCalls = 1\<rparr> \<and>
   hideListBox \<lparr>listBoxVisible = False, display = None, dismissListenerOn = {},
          displayOnly = False, rootedDisplays = [7, 8], removeCalls = 1\<rparr> =
     Inr \<lparr>listBoxVisible = False, display = None, dismissListenerOn = {},
          displayOnly = False, rootedDisplays = [7, 8], removeCalls = 1\<rparr>"
  using hideListBox_idempotent [of "\<lparr>listBoxVisible = False, display = None,
      dismissListenerOn = {}, displayOnly = False, rootedDisplays = [7, 8], removeCalls = 1\<rparr>"]
  by simp

subsection \<open>Properties of AccessibleNumberSpinner\<close>

lemma timerTracked_running:
  assumes "timerTracked s" and "running (callbackTimer s)"
  obtains cb r where "downCallback s = Some cb" and "runningTimerCallbackEvent s = Some r"
    and "isRangeKey r" and "callbacks (callbackTimer s) = [cb]" and "snd cb = r"
proof (cases "downCallback s")
  case None
  with assms show ?thesis by (simp add: timerTracked_def)
next
  case (Some cb)
  show ?thesis
  proof (cases "runningTimerCallbackEvent s")
    case None
    with assms Some show ?thesis by (simp add: timerTracked_def)
  next
    case r: (Some r)
    with assms Some have "isRangeKey r" "callbacks (callbackTimer s) = [cb]" "snd cb = r"
      by (simp_all add: timerTracked_def)
    with Some r that show ?thesis by blast
  qed
qed

lemma timerTracked_idle:
  assumes "timerTracked s" and "\<not> running (callbackTimer s)"
  shows "callbacks (callbackTimer s) = []"
proof (cases "downCallback s")
  case None
  with assms show ?thesis by (simp add: timerTracked_def)
next
  case (Some cb)
  show ?thesis
  proof (cases "runningTimerCallbackEvent s")
    case None
    with assms Some show ?thesis by (simp add: timerTracked_def)
  next
    case r: (Some r)
    with assms Some show ?thesis by (simp add: timerTracked_def)
  qed
qed

lemma timerTracked_held:
  assumes "timerTracked s" and "downCallback s = Some cb"
  obtains r where "runningTimerCallbackEvent s = Some r" and "isRangeKey r"
proof (cases "runningTimerCallbackEvent s")
  case None
  with assms show ?thesis by (simp add: timerTracked_def)
next
  case (Some r)
  with assms have "isRangeKey r" by (simp add: timerTracked_def)
  with Some that show ?thesis by blast
qed

lemma handleKeyDown_fields:
  "callbackTimer (accessibleNumberSpinnerHandleKeyDown ev s) = callbackTimer s"
  "downCallback (accessibleNumberSpinnerHandleKeyDown ev s) = downCallback s"
  "runningTimerCallbackEvent (accessibleNumberSpinnerHandleKeyDown ev s) =
     runningTimerCallbackEvent s"
  "enabledProperty (accessibleNumberSpinnerHandleKeyDown ev s) = enabledProperty s"
  "created (accessibleNumberSpinnerHandleKeyDown ev s) = created s"
  "preventDefaults (accessibleNumberSpinnerHandleKeyDown ev s) = preventDefaults s"
  "actions (accessibleNumberSpinnerHandleKeyDown ev s) = actions s @ [ev]"
  by (simp_all add: accessibleNumberSpinnerHandleKeyDown_def emitKeyState_def handleKeyDown_def)

lemma emitKeyState_fields:
  "callbackTimer (emitKeyState ev b s) = callbackTimer s"
  "downCallback (emitKeyState ev b s) = downCallback s"
  "runningTimerCallbackEvent (emitKeyState ev b s) = runningTimerCallbackEvent s"
  "enabledProperty (emitKeyState ev b s) = enabledProperty s"
  "actions (emitKeyState ev b s) = actions s"
  by (simp_all add: emitKeyState_def)

lemma timerTracked_cong2:
  assumes "running (callbackTimer s') = running (callbackTimer s)"
    and "callbacks (callbackTimer s') = callbacks (callbackTimer s)"
    and "downCallback s' = downCallback s"
    and "runningTimerCallbackEvent s' = runningTimerCallbackEvent s"
  shows "timerTracked s' = timerTracked s"
  unfolding timerTracked_def assms by (rule refl)

lemma timerTracked_cong:
  assumes "callbackTimer s' = callbackTimer s" and "downCallback s' = downCallback s"
    and "runningTimerCallbackEvent s' = runningTimerCallbackEvent s"
  shows "timerTracked s' = timerTracked s"
  using assms by (intro timerTracked_cong2) simp_all

lemma keydown_arms:
  assumes "enabledProperty s" and "isRangeKey ev" and "\<not> metaKey ev"
    and "\<not> running (callbackTimer s)"
  shows "callbackTimer (keydown ev s) =
           (callbackTimer s)\<lparr>callbacks := callbacks (callbackTimer s) @ [(created s, ev)],
                              running := True, elapsed := 0, performed := 0\<rparr>"
    and "downCallback (keydown ev s) = Some (created s, ev)"
    and "runningTimerCallbackEvent (keydown ev s) = Some ev"
    and "actions (keydown ev s) = actions s @ [ev]"
    and "enabledProperty (keydown ev s) = enabledProperty s"
  using assms
  by (simp_all add: keydown_def Let_def isRunning_def start_def addCallback_def
      handleKeyDown_fields)

lemma keydown_passes:
  assumes "\<not> (enabledProperty s \<and> isRangeKey ev \<and> \<not> metaKey ev \<and> \<not> running (callbackTimer s))"
  shows "keydown ev s =
           (if enabledProperty s \<and> isRangeKey ev
            then s\<lparr>preventDefaults := preventDefaults s + 1\<rparr> else s)"
  using assms
  by (auto simp add: keydown_def Let_def isRunning_def)

lemma keydown_tracked:
  assumes t: "timerTracked s"
  shows "timerTracked (keydown ev s)"
proof (cases "enabledProperty s \<and> isRangeKey ev \<and> \<not> metaKey ev \<and> \<not> running (callbackTimer s)")
  case True
  then have c: "callbacks (callbackTimer s) = []"
    using t by (simp add: timerTracked_idle)
  from True show ?thesis
    by (simp add: timerTracked_def keydown_arms c)
next
  case False
  have "timerTracked (keydown ev s) = timerTracked s"
    by (rule timerTracked_cong) (simp_all add: keydown_passes [OF False])
  with t show ?thesis by simp
qed

lemma keyup_releases:
  assumes "runningTimerCallbackEvent s = Some r" and "eventCode ev = eventCode r"
    and "isRangeKey r"
  shows "callbackTimer (keyup ev s) = removeCallback (downCallback s) (stop (callbackTimer s))"
    and "downCallback (keyup ev s) = None"
    and "runningTimerCallbackEvent (keyup ev s) = None"
    and "actions (keyup ev s) = actions s"
proof -
  from assms have "isRangeKey ev" by (simp add: isRangeKey_def)
  with assms show
    "callbackTimer (keyup ev s) = removeCallback (downCallback s) (stop (callbackTimer s))"
    "downCallback (keyup ev s) = None"
    "runningTimerCallbackEvent (keyup ev s) = None"
    "actions (keyup ev s) = actions s"
    by (simp_all add: keyup_def Let_def handleKeyUp_def emitKeyState_fields)
qed

lemma keyup_passes:
  assumes "\<forall>r. runningTimerCallbackEvent s = Some r \<longrightarrow> eventCode ev \<noteq> eventCode r"
  shows "keyup ev s = (if isRangeKey ev then s\<lparr>keyUps := keyUps s + 1\<rparr> else s)"
proof (cases "runningTimerCallbackEvent s")
  case None
  then show ?thesis by (simp add: keyup_def handleKeyUp_def)
next
  case (Some r)
  with assms have "eventCode ev \<noteq> eventCode r" by simp
  with Some show ?thesis by (simp add: keyup_def handleKeyUp_def)
qed

lemma stopped_timer:
  "running (removeCallback cb (stop t)) = False"
  "callbacks (removeCallback (Some f) (stop t)) = remove1 f (callbacks t)"
  "callbacks (removeCallback None (stop t)) = callbacks t"
  by (simp_all add: removeCallback_def stop_def split: option.splits)

lemma keyup_tracked:
  assumes t: "timerTracked s"
  shows "timerTracked (keyup ev s)"
proof (cases "\<exists>r. runningTimerCallbackEvent s = Some r \<and> eventCode ev = eventCode r")
  case False
  then have p: "\<forall>r. runningTimerCallbackEvent s = Some r \<longrightarrow> eventCode ev \<noteq> eventCode r"
    by blast
  have "timerTracked (keyup ev s) = timerTracked s"
    by (rule timerTracked_cong) (simp_all add: keyup_passes [OF p])
  with t show ?thesis by simp
next
  case True
  then obtain r where r: "runningTimerCallbackEvent s = Some r" "eventCode ev = eventCode r"
    by blast
  from t r(1) obtain cb where cb: "downCallback s = Some cb"
    by (cases "downCallback s") (simp_all add: timerTracked_def)
  from t r(1) cb have rk: "isRangeKey r" by (simp add: timerTracked_def)
  have "callbacks (callbackTimer s) = [cb] \<or> callbacks (callbackTimer s) = []"
    using t r(1) cb by (simp add: timerTracked_def split: if_splits)
  then have "remove1 cb (callbacks (callbackTimer s)) = []" by auto
  then show ?thesis
    by (simp add: timerTracked_def keyup_releases [OF r rk] cb stopped_timer)
qed

lemma blur_idle:
  assumes "downCallback s = None"
  shows "blur s = Inr (handleBlur s)"
  using assms by (simp add: blur_def)

lemma blur_held:
  assumes "downCallback s = Some cb" and "runningTimerCallbackEvent s = Some r"
  shows "blur s =
     Inr (handleBlur ((emitKeyState r False s)
       \<lparr>callbackTimer := removeCallback (Some cb) (stop (callbackTimer s))\<rparr>))"
  using assms by (simp add: blur_def Let_def emitKeyState_fields)

lemma blur_tracked:
  assumes t: "timerTracked s" and b: "blur s = Inr s'"
  shows "timerTracked s' \<and> \<not> running (callbackTimer s')"
proof (cases "downCallback s")
  case None
  with b have s': "s' = handleBlur s" by (simp add: blur_idle)
  from t None have "\<not> running (callbackTimer s)" by (simp add: timerTracked_def)
  moreover have "timerTracked (handleBlur s) = timerTracked s"
    by (rule timerTracked_cong) (simp_all add: handleBlur_def)
  ultimately show ?thesis using t s' by (simp add: handleBlur_def)
next
  case (Some cb)
  from t Some obtain r where r: "runningTimerCallbackEvent s = Some r" and rk: "isRangeKey r"
    by (rule timerTracked_held)
  have "callbacks (callbackTimer s) = [cb] \<or> callbacks (callbackTimer s) = []"
    using t r Some by (simp add: timerTracked_def split: if_splits)
  then have e: "remove1 cb (callbacks (callbackTimer s)) = []" by auto
  from b have s': "s' = handleBlur ((emitKeyState r False s)
       \<lparr>callbackTimer := removeCallback (Some cb) (stop (callbackTimer s))\<rparr>)"
    by (simp add: blur_held [OF Some r])
  show ?thesis
    by (simp add: s' timerTracked_def handleBlur_def emitKeyState_fields Some r rk
        stopped_timer e)
qed

lemma blur_total:
  assumes "timerTracked s"
  shows "\<exists>s'. blur s = Inr s'"
proof (cases "downCallback s")
  case None
  then show ?thesis by (simp add: blur_idle)
next
  case (Some cb)
  from assms Some obtain r where "runningTimerCallbackEvent s = Some r"
    by (rule timerTracked_held)
  with Some show ?thesis by (simp add: blur_held)
qed

lemma performCallbacks_fields:
  "callbackTimer (performCallbacks cbs s) = callbackTimer s \<and>
   downCallback (performCallbacks cbs s) = downCallback s \<and>
   runningTimerCallbackEvent (performCallbacks cbs s) = runningTimerCallbackEvent s \<and>
   enabledProperty (performCallbacks cbs s) = enabledProperty s \<and>
   actions (performCallbacks cbs s) = actions s @ map snd cbs"
  by (induction cbs arbitrary: s) (simp_all add: handleKeyDown_fields)

lemma performTimes_fields:
  "callbackTimer (performTimes n cbs s) = callbackTimer s \<and>
   downCallback (performTimes n cbs s) = downCallback s \<and>
   runningTimerCallbackEvent (performTimes n cbs s) = runningTimerCallbackEvent s \<and>
   enabledProperty (performTimes n cbs s) = enabledProperty s \<and>
   actions (performTimes n cbs s) = actions s @ concat (replicate n (map snd cbs))"
  by (induction n arbitrary: s) (simp_all add: performCallbacks_fields)

lemma elapse_idle:
  assumes "\<not> running (callbackTimer s)"
  shows "elapse dt s = s"
  using assms by (simp add: elapse_def due_def Let_def)

lemma elapse_running:
  assumes "running (callbackTimer s)" and "callbacks (callbackTimer s) = [cb]"
  shows "actions (elapse dt s) = actions s @ replicate (due (callbackTimer s) dt) (snd cb)"
    and "callbackTimer (elapse dt s) =
           (callbackTimer s)\<lparr>elapsed := elapsed (callbackTimer s) + dt,
              performed := performed (callbackTimer s) + due (callbackTimer s) dt\<rparr>"
    and "downCallback (elapse dt s) = downCallback s"
    and "runningTimerCallbackEvent (elapse dt s) = runningTimerCallbackEvent s"
    and "enabledProperty (elapse dt s) = enabledProperty s"
proof -
  have c: "concat (replicate n [x]) = replicate n x" for n and x :: KeyEvent
    by (induction n) simp_all
  from assms show
    "actions (elapse dt s) = actions s @ replicate (due (callbackTimer s) dt) (snd cb)"
    "callbackTimer (elapse dt s) =
           (callbackTimer s)\<lparr>elapsed := elapsed (callbackTimer s) + dt,
              performed := performed (callbackTimer s) + due (callbackTimer s) dt\<rparr>"
    "downCallback (elapse dt s) = downCallback s"
    "runningTimerCallbackEvent (elapse dt s) = runningTimerCallbackEvent s"
    "enabledProperty (elapse dt s) = enabledProperty s"
    by (simp_all add: elapse_def Let_def performTimes_fields c)
qed

lemma elapse_tracked:
  assumes t: "timerTracked s"
  shows "timerTracked (elapse dt s)"
proof (cases "running (callbackTimer s)")
  case False
  with t show ?thesis by (simp add: elapse_idle)
next
  case True
  with t obtain cb r where cb: "callbacks (callbackTimer s) = [cb]"
    by (rule timerTracked_running)
  have "timerTracked (elapse dt s) = timerTracked s"
    by (rule timerTracked_cong2) (simp_all add: elapse_running [OF True cb])
  with t show ?thesis by simp
qed

lemma spinnerEvent_tracked:
  assumes t: "timerTracked s" and r: "spinnerEvent x s = Inr s'"
  shows "timerTracked s'"
proof (cases x)
  case (KeyDown ev)
  with r have "s' = keydown ev s" by simp
  with t show ?thesis by (simp add: keydown_tracked)
next
  case (KeyUp ev)
  with r have "s' = keyup ev s" by simp
  with t show ?thesis by (simp add: keyup_tracked)
next
  case Blur
  with r have "blur s = Inr s'" by simp
  with t show ?thesis by (simp add: blur_tracked)
next
  case (Elapse dt)
  with r have "s' = elapse dt s" by simp
  with t show ?thesis by (simp add: elapse_tracked)
next
  case (SetEnabled b)
  with r have s': "s' = s\<lparr>enabledProperty := b\<rparr>" by simp
  have "timerTracked s' = timerTracked s"
    by (rule timerTracked_cong) (simp_all add: s')
  with t show ?thesis by simp
qed

lemma spinnerEvents_tracked:
  "timerTracked s \<Longrightarrow> spinnerEvents xs s = Inr s' \<Longrightarrow> timerTracked s'"
proof (induction xs arbitrary: s)
  case Nil
  then show ?case by simp
next
  case (Cons x xs)
  show ?case
  proof (cases "spinnerEvent x s")
    case (Inl e)
    with Cons.prems(2) show ?thesis by simp
  next
    case (Inr s1)
    with Cons.prems(2) have rest: "spinnerEvents xs s1 = Inr s'" by simp
    from Cons.prems(1) Inr have "timerTracked s1" by (rule spinnerEvent_tracked)
    then show ?thesis using rest by (rule Cons.IH)
  qed
qed

lemma newSpinner_tracked: "timerTracked (newSpinner d i)"
  by (simp add: timerTracked_def newSpinner_def)

lemma spinnerEvents_total:
  "timerTracked s \<Longrightarrow> \<exists>s'. spinnerEvents xs s = Inr s'"
proof (induction xs arbitrary: s)
  case Nil
  show ?case by simp
next
  case (Cons x xs)
  have "\<exists>s1. spinnerEvent x s = Inr s1"
  proof (cases x)
    case Blur
    with blur_total [OF Cons.prems] show ?thesis by simp
  qed simp_all
  then obtain s1 where s1: "spinnerEvent x s = Inr s1" by blast
  with Cons.prems have "timerTracked s1" by (rule spinnerEvent_tracked)
  then have "\<exists>s'. spinnerEvents xs s1 = Inr s'" by (rule Cons.IH)
  with s1 show ?case by simp
qed

lemma elapse_timer:
  "callbackTimer (elapse dt s) =
     (if running (callbackTimer s)
      then (callbackTimer s)\<lparr>elapsed := elapsed (callbackTimer s) + dt,
              performed := performed (callbackTimer s) + due (callbackTimer s) dt\<rparr>
      else callbackTimer s)"
  by (simp add: elapse_def Let_def performTimes_fields)

lemma keydown_config:
  "delay (callbackTimer (keydown ev s)) = delay (callbackTimer s) \<and>
   interval (callbackTimer (keydown ev s)) = interval (callbackTimer s)"
proof (cases "enabledProperty s \<and> isRangeKey ev \<and> \<not> metaKey ev \<and> \<not> running (callbackTimer s)")
  case True
  then show ?thesis by (simp add: keydown_arms)
next
  case False
  then show ?thesis by (simp add: keydown_passes)
qed

lemma keyup_config:
  "delay (callbackTimer (keyup ev s)) = delay (callbackTimer s) \<and>
   interval (callbackTimer (keyup ev s)) = interval (callbackTimer s)"
  by (simp add: keyup_def Let_def handleKeyUp_def emitKeyState_fields removeCallback_def
      stop_def split: option.splits)

lemma blur_config:
  assumes "blur s = Inr s'"
  shows "delay (callbackTimer s') = delay (callbackTimer s) \<and>
         interval (callbackTimer s') = interval (callbackTimer s)"
  using assms
  by (auto simp add: blur_def Let_def handleBlur_def emitKeyState_fields removeCallback_def
      stop_def split: option.splits)

lemma spinnerEvent_config:
  assumes "spinnerEvent x s = Inr s'"
  shows "delay (callbackTimer s') = delay (callbackTimer s) \<and>
         interval (callbackTimer s') = interval (callbackTimer s)"
proof (cases x)
  case (KeyDown ev)
  with assms show ?thesis by (auto simp add: keydown_config)
next
  case (KeyUp ev)
  with assms show ?thesis by (auto simp add: keyup_config)
next
  case Blur
  with assms show ?thesis by (simp add: blur_config)
next
  case (Elapse dt)
  with assms show ?thesis by (auto simp add: elapse_timer)
next
  case (SetEnabled b)
  with assms show ?thesis by auto
qed

lemma spinnerEvents_config:
  "spinnerEvents xs s = Inr s' \<Longrightarrow>
   delay (callbackTimer s') = delay (callbackTimer s) \<and>
   interval (callbackTimer s') = interval (callbackTimer s)"
proof (induction xs arbitrary: s)
  case Nil
  then show ?case by simp
next
  case (Cons x xs)
  show ?case
  proof (cases "spinnerEvent x s")
    case (Inl e)
    with Cons.prems show ?thesis by simp
  next
    case (Inr s1)
    with Cons.prems have "spinnerEvents xs s1 = Inr s'" by simp
    then have "delay (callbackTimer s') = delay (callbackTimer s1) \<and>
         interval (callbackTimer s') = interval (callbackTimer s1)" by (rule Cons.IH)
    with spinnerEvent_config [OF Inr] show ?thesis by simp
  qed
qed

lemma firedBy_before: "ms < delay t \<Longrightarrow> firedBy t ms = 0"
  by (simp add: firedBy_def)

lemma firedBy_slot:
  assumes "0 < interval t" and "delay t + k * interval t \<le> ms"
    and "ms < delay t + (k + 1) * interval t"
  shows "firedBy t ms = k + 1"
proof -
  from assms have "interval t * k \<le> ms - delay t" "ms - delay t < interval t * Suc k"
    by (simp_all add: algebra_simps)
  then have "(ms - delay t) div interval t = k" by (rule div_nat_eqI)
  moreover from assms have "\<not> ms < delay t" by simp
  ultimately show ?thesis by (simp add: firedBy_def)
qed

lemma held_key_actions:
  assumes t: "timerTracked s" and en: "enabledProperty s" and rk: "isRangeKey ev"
    and nm: "\<not> metaKey ev" and idle: "\<not> running (callbackTimer s)"
  shows "actions (elapse ms (keydown ev s)) =
           actions s @ ev # replicate (firedBy (callbackTimer s) ms) ev"
proof -
  have c: "callbacks (callbackTimer s) = []" using t idle by (rule timerTracked_idle)
  let ?s1 = "keydown ev s"
  have r1: "running (callbackTimer ?s1)"
    and c1: "callbacks (callbackTimer ?s1) = [(created s, ev)]"
    and d1: "due (callbackTimer ?s1) ms = firedBy (callbackTimer s) ms"
    by (simp_all add: keydown_arms [OF en rk nm idle] c due_def firedBy_def)
  show ?thesis
    by (simp add: elapse_running(1) [OF r1 c1] d1 keydown_arms(4) [OF en rk nm idle])
qed

text \<open>
  C4 (as amended). \<open>timerDelay\<close> and \<open>timerInterval\<close> default to 400 and 100
  milliseconds. In every state a spinner reaches from its constructor (with a positive
  interval): a keydown of a range key, while the node is enabled, the meta key is not
  held and no timer runs, performs one action at once and starts the timer; while the
  key is held, no further action is performed before \<open>timerDelay\<close> has passed, the
  first repeated action is performed at \<open>timerDelay\<close>, and one more every
  \<open>timerInterval\<close> after that. While the timer runs, a keyup with the code of the
  event that started it stops the timer, a keyup with another code leaves the timer as
  it is, and a blur stops the timer.
\<close>

theorem spinner_keyboard_repeat:
  assumes "spinnerEvents xs (newSpinner timerDelay timerInterval) = Inr s"
    and "timerInterval \<noteq> Some 0"
  shows "delay (callbackTimer s) = (case timerDelay of None \<Rightarrow> 400 | Some d \<Rightarrow> d) \<and>
         interval (callbackTimer s) = (case timerInterval of None \<Rightarrow> 100 | Some i \<Rightarrow> i) \<and>
         (enabledProperty s \<and> isRangeKey ev \<and> \<not> metaKey ev \<and> \<not> isRunning (callbackTimer s) \<longrightarrow>
            actions (keydown ev s) = actions s @ [ev] \<and>
            isRunning (callbackTimer (keydown ev s)) \<and>
            runningTimerCallbackEvent (keydown ev s) = Some ev \<and>
            (\<forall>ms. ms < delay (callbackTimer s) \<longrightarrow>
               actions (elapse ms (keydown ev s)) = actions s @ [ev]) \<and>
            (\<forall>k ms. delay (callbackTimer s) + k * interval (callbackTimer s) \<le> ms \<and>
                    ms < delay (callbackTimer s) + (k + 1) * interval (callbackTimer s) \<longrightarrow>
               actions (elapse ms (keydown ev s)) = actions s @ replicate (k + 2) ev)) \<and>
         (isRunning (callbackTimer s) \<longrightarrow>
            (\<exists>r. runningTimerCallbackEvent s = Some r \<and>
               (\<forall>up. eventCode up = eventCode r \<longrightarrow>
                  \<not> isRunning (callbackTimer (keyup up s))) \<and>
               (\<forall>up. eventCode up \<noteq> eventCode r \<longrightarrow>
                  callbackTimer (keyup up s) = callbackTimer s)) \<and>
            (\<exists>s'. blur s = Inr s' \<and> \<not> isRunning (callbackTimer s')))"
proof -
  have t: "timerTracked s"
    using newSpinner_tracked assms(1) by (rule spinnerEvents_tracked)
  have cfg: "delay (callbackTimer s) = (case timerDelay of None \<Rightarrow> 400 | Some d \<Rightarrow> d)"
    "interval (callbackTimer s) = (case timerInterval of None \<Rightarrow> 100 | Some i \<Rightarrow> i)"
    using spinnerEvents_config [OF assms(1)] by (simp_all add: newSpinner_def)
  from cfg(2) assms(2) have pos: "0 < interval (callbackTimer s)"
    by (cases timerInterval) simp_all
  have arm: "actions (keydown ev s) = actions s @ [ev] \<and>
            isRunning (callbackTimer (keydown ev s)) \<and>
            runningTimerCallbackEvent (keydown ev s) = Some ev \<and>
            (\<forall>ms. ms < delay (callbackTimer s) \<longrightarrow>
               actions (elapse ms (keydown ev s)) = actions s @ [ev]) \<and>
            (\<forall>k ms. delay (callbackTimer s) + k * interval (callbackTimer s) \<le> ms \<and>
                    ms < delay (callbackTimer s) + (k + 1) * interval (callbackTimer s) \<longrightarrow>
               actions (elapse ms (keydown ev s)) = actions s @ replicate (k + 2) ev)"
    if en: "enabledProperty s" and rk: "isRangeKey ev" and nm: "\<not> metaKey ev"
      and idle: "\<not> running (callbackTimer s)"
  proof -
    note held = held_key_actions [OF t en rk nm idle]
    have "actions (elapse ms (keydown ev s)) = actions s @ [ev]"
      if "ms < delay (callbackTimer s)" for ms
      using that by (simp add: held firedBy_before)
    moreover have "actions (elapse ms (keydown ev s)) = actions s @ replicate (k + 2) ev"
      if "delay (callbackTimer s) + k * interval (callbackTimer s) \<le> ms"
        and "ms < delay (callbackTimer s) + (k + 1) * interval (callbackTimer s)" for k ms
      using firedBy_slot [OF pos that] by (simp add: held)
    ultimately show ?thesis
      by (simp add: keydown_arms [OF en rk nm idle] isRunning_def)
  qed
  have rel: "(\<exists>r. runningTimerCallbackEvent s = Some r \<and>
               (\<forall>up. eventCode up = eventCode r \<longrightarrow>
                  \<not> isRunning (callbackTimer (keyup up s))) \<and>
               (\<forall>up. eventCode up \<noteq> eventCode r \<longrightarrow>
                  callbackTimer (keyup up s) = callbackTimer s)) \<and>
            (\<exists>s'. blur s = Inr s' \<and> \<not> isRunning (callbackTimer s'))"
    if run: "running (callbackTimer s)"
  proof -
    from t run obtain cb r where r: "runningTimerCallbackEvent s = Some r"
      and rk: "isRangeKey r"
      by (rule timerTracked_running)
    have "\<not> isRunning (callbackTimer (keyup up s))" if "eventCode up = eventCode r" for up
      by (simp add: keyup_releases(1) [OF r that rk] isRunning_def stopped_timer)
    moreover have "callbackTimer (keyup up s) = callbackTimer s"
      if "eventCode up \<noteq> eventCode r" for up
    proof -
      from r that
      have "\<forall>q. runningTimerCallbackEvent s = Some q \<longrightarrow> eventCode up \<noteq> eventCode q"
        by simp
      then show ?thesis by (simp add: keyup_passes)
    qed
    moreover from blur_total [OF t] obtain s' where s': "blur s = Inr s'" by blast
    from blur_tracked [OF t s'] have "\<not> isRunning (callbackTimer s')"
      by (simp add: isRunning_def)
    ultimately show ?thesis using r s' by blast
  qed
  from cfg arm rel show ?thesis by (simp add: isRunning_def)
qed

text \<open>A fresh spinner with the default options, and the same with the up arrow held.\<close>

lemma spinner_fresh_example:
  "spinnerEvents [] (newSpinner None None) = Inr (newSpinner None None)"
  by simp

lemma spinner_held_example:
  "spinnerEvents [KeyDown \<lparr>eventCode = ArrowUp, metaKey = False\<rparr>] (newSpinner None None) =
     Inr (keydown \<lparr>eventCode = ArrowUp, metaKey = False\<rparr> (newSpinner None None))"
  by simp

text \<open>
  The theorem at the fresh spinner: one action at the keydown, still one after 399 ms,
  two after 400 ms, four after 650 ms; releasing the up arrow stops the timer, releasing
  Home does not.
\<close>

theorem spinner_keyboard_repeat_witness:
  "spinnerEvents [] (newSpinner None None) = Inr (newSpinner None None) \<and>
   actions (keydown \<lparr>eventCode = ArrowUp, metaKey = False\<rparr> (newSpinner None None)) = [\<lparr>eventCode = ArrowUp, metaKey = False\<rparr>] \<and>
   actions (elapse 399 (keydown \<lparr>eventCode = ArrowUp, metaKey = False\<rparr> (newSpinner None None))) = [\<lparr>eventCode = ArrowUp, metaKey = False\<rparr>] \<and>
   actions (elapse 400 (keydown \<lparr>eventCode = ArrowUp, metaKey = False\<rparr> (newSpinner None None))) = [\<lparr>eventCode = ArrowUp, metaKey = False\<rparr>, \<lparr>eventCode = ArrowUp, metaKey = False\<rparr>] \<and>
   actions (elapse 650 (keydown \<lparr>eventCode = ArrowUp, metaKey = False\<rparr> (newSpinner None None))) = [\<lparr>eventCode = ArrowUp, metaKey = False\<rparr>, \<lparr>eventCode = ArrowUp, metaKey = False\<rparr>, \<lparr>eventCode = ArrowUp, metaKey = False\<rparr>, \<lparr>eventCode = ArrowUp, metaKey = False\<rparr>] \<and>
   isRunning (callbackTimer (keydown \<lparr>eventCode = ArrowUp, metaKey = False\<rparr> (newSpinner None None))) \<and>
   \<not> isRunning (callbackTimer (keyup \<lparr>eventCode = ArrowUp, metaKey = False\<rparr> (keydown \<lparr>eventCode = ArrowUp, metaKey = False\<rparr> (newSpinner None None)))) \<and>
   isRunning (callbackTimer (keyup \<lparr>eventCode = Home, metaKey = False\<rparr> (keydown \<lparr>eventCode = ArrowUp, metaKey = False\<rparr> (newSpinner None None))))"
proof -
  have ni: "(None :: nat option) \<noteq> Some 0" by simp
  have pre: "enabledProperty (newSpinner None None) \<and> isRangeKey \<lparr>eventCode = ArrowUp, metaKey = False\<rparr> \<and>
      \<not> metaKey \<lparr>eventCode = ArrowUp, metaKey = False\<rparr> \<and>
      \<not> isRunning (callbackTimer (newSpinner None None))"
    by (simp add: newSpinner_def isRangeKey_def isRunning_def)
  note fresh = spinner_keyboard_repeat [OF spinner_fresh_example ni, of "\<lparr>eventCode = ArrowUp, metaKey = False\<rparr>"]
  from fresh have cfg: "delay (callbackTimer (newSpinner None None)) = 400"
    "interval (callbackTimer (newSpinner None None)) = 100"
    by simp_all
  from fresh pre have a0: "actions (keydown \<lparr>eventCode = ArrowUp, metaKey = False\<rparr> (newSpinner None None)) = [\<lparr>eventCode = ArrowUp, metaKey = False\<rparr>]"
    and run: "isRunning (callbackTimer (keydown \<lparr>eventCode = ArrowUp, metaKey = False\<rparr> (newSpinner None None)))"
    and rt: "runningTimerCallbackEvent (keydown \<lparr>eventCode = ArrowUp, metaKey = False\<rparr> (newSpinner None None)) = Some \<lparr>eventCode = ArrowUp, metaKey = False\<rparr>"
    and before: "\<forall>ms. ms < delay (callbackTimer (newSpinner None None)) \<longrightarrow>
       actions (elapse ms (keydown \<lparr>eventCode = ArrowUp, metaKey = False\<rparr> (newSpinner None None))) =
         actions (newSpinner None None) @ [\<lparr>eventCode = ArrowUp, metaKey = False\<rparr>]"
    and slots: "\<forall>k ms. delay (callbackTimer (newSpinner None None)) +
            k * interval (callbackTimer (newSpinner None None)) \<le> ms \<and>
          ms < delay (callbackTimer (newSpinner None None)) +
            (k + 1) * interval (callbackTimer (newSpinner None None)) \<longrightarrow>
       actions (elapse ms (keydown \<lparr>eventCode = ArrowUp, metaKey = False\<rparr> (newSpinner None None))) =
         actions (newSpinner None None) @ replicate (k + 2) \<lparr>eventCode = ArrowUp, metaKey = False\<rparr>"
    by (simp_all add: newSpinner_def)
  have nil: "actions (newSpinner None None) = []" by (simp add: newSpinner_def)
  from before cfg nil have a399: "actions (elapse 399 (keydown \<lparr>eventCode = ArrowUp, metaKey = False\<rparr> (newSpinner None None))) = [\<lparr>eventCode = ArrowUp, metaKey = False\<rparr>]"
    by simp
  from slots [rule_format, of 0 400] cfg nil
  have a400: "actions (elapse 400 (keydown \<lparr>eventCode = ArrowUp, metaKey = False\<rparr> (newSpinner None None))) = [\<lparr>eventCode = ArrowUp, metaKey = False\<rparr>, \<lparr>eventCode = ArrowUp, metaKey = False\<rparr>]"
    by (simp add: numeral_2_eq_2)
  from slots [rule_format, of 2 650] cfg nil
  have a650: "actions (elapse 650 (keydown \<lparr>eventCode = ArrowUp, metaKey = False\<rparr> (newSpinner None None))) = [\<lparr>eventCode = ArrowUp, metaKey = False\<rparr>, \<lparr>eventCode = ArrowUp, metaKey = False\<rparr>, \<lparr>eventCode = ArrowUp, metaKey = False\<rparr>, \<lparr>eventCode = ArrowUp, metaKey = False\<rparr>]"
    by (simp add: numeral_eq_Suc)
  note held = spinner_keyboard_repeat [OF spinner_held_example ni, of "\<lparr>eventCode = ArrowUp, metaKey = False\<rparr>"]
  from held run obtain r where r: "runningTimerCallbackEvent (keydown \<lparr>eventCode = ArrowUp, metaKey = False\<rparr> (newSpinner None None)) = Some r"
    and same: "\<forall>up. eventCode up = eventCode r \<longrightarrow>
        \<not> isRunning (callbackTimer (keyup up (keydown \<lparr>eventCode = ArrowUp, metaKey = False\<rparr> (newSpinner None None))))"
    and other: "\<forall>up. eventCode up \<noteq> eventCode r \<longrightarrow>
        callbackTimer (keyup up (keydown \<lparr>eventCode = ArrowUp, metaKey = False\<rparr> (newSpinner None None))) =
        callbackTimer (keydown \<lparr>eventCode = ArrowUp, metaKey = False\<rparr> (newSpinner None None))"
    by blast
  from r rt have "r = \<lparr>eventCode = ArrowUp, metaKey = False\<rparr>" by simp
  with same other run
  have "\<not> isRunning (callbackTimer (keyup \<lparr>eventCode = ArrowUp, metaKey = False\<rparr> (keydown \<lparr>eventCode = ArrowUp, metaKey = False\<rparr> (newSpinner None None))))"
    and "isRunning (callbackTimer (keyup \<lparr>eventCode = Home, metaKey = False\<rparr> (keydown \<lparr>eventCode = ArrowUp, metaKey = False\<rparr> (newSpinner None None))))"
    by simp_all
  with a0 a399 a400 a650 run show ?thesis by simp
qed

text \<open>
  The claim as stated fails for a keydown of the up arrow on an idle spinner when the
  meta key is held, and when the node is disabled: no action is performed and the timer
  is not started.
\<close>

theorem spinner_keyboard_repeat_counterexample:
  "isRangeKey \<lparr>eventCode = ArrowUp, metaKey = True\<rparr> \<and>
   \<not> isRunning (callbackTimer (newSpinner None None)) \<and>
   actions (keydown \<lparr>eventCode = ArrowUp, metaKey = True\<rparr> (newSpinner None None)) = [] \<and>
   \<not> isRunning (callbackTimer (keydown \<lparr>eventCode = ArrowUp, metaKey = True\<rparr> (newSpinner None None))) \<and>
   isRangeKey \<lparr>eventCode = ArrowUp, metaKey = False\<rparr> \<and>
   \<not> isRunning (callbackTimer ((newSpinner None None)\<lparr>enabledProperty := False\<rparr>)) \<and>
   actions (keydown \<lparr>eventCode = ArrowUp, metaKey = False\<rparr> ((newSpinner None None)\<lparr>enabledProperty := False\<rparr>)) = [] \<and>
   \<not> isRunning (callbackTimer (keydown \<lparr>eventCode = ArrowUp, metaKey = False\<rparr> ((newSpinner None None)\<lparr>enabledProperty := False\<rparr>)))"
  by (simp add: newSpinner_def keydown_def isRangeKey_def isRunning_def)

text \<open>
  C9 (as amended). When a keydown of a range key arrives with the meta key held while
  the node is enabled, \<open>preventDefault\<close> is called once and nothing else changes: no
  action is performed and the timer, with the closure variables, stays as it was.
\<close>

theorem keydown_meta_key:
  assumes "enabledProperty s" and "isRangeKey ev" and "metaKey ev"
  shows "keydown ev s = s\<lparr>preventDefaults := preventDefaults s + 1\<rparr> \<and>
         preventDefaults (keydown ev s) = preventDefaults s + 1 \<and>
         actions (keydown ev s) = actions s \<and>
         callbackTimer (keydown ev s) = callbackTimer s"
  using assms by (simp add: keydown_def)

text \<open>The theorem at a fresh spinner and the up arrow with the meta key.\<close>

theorem keydown_meta_key_witness:
  "enabledProperty (newSpinner None None) \<and> isRangeKey \<lparr>eventCode = ArrowUp, metaKey = True\<rparr> \<and> metaKey \<lparr>eventCode = ArrowUp, metaKey = True\<rparr> \<and>
   preventDefaults (keydown \<lparr>eventCode = ArrowUp, metaKey = True\<rparr> (newSpinner None None)) = 1 \<and>
   actions (keydown \<lparr>eventCode = ArrowUp, metaKey = True\<rparr> (newSpinner None None)) = [] \<and>
   \<not> isRunning (callbackTimer (keydown \<lparr>eventCode = ArrowUp, metaKey = True\<rparr> (newSpinner None None)))"
proof -
  have pre: "enabledProperty (newSpinner None None)" "isRangeKey \<lparr>eventCode = ArrowUp, metaKey = True\<rparr>" "metaKey \<lparr>eventCode = ArrowUp, metaKey = True\<rparr>"
    by (simp_all add: newSpinner_def isRangeKey_def)
  have z: "preventDefaults (newSpinner None None) = 0" "actions (newSpinner None None) = []"
    "\<not> isRunning (callbackTimer (newSpinner None None))"
    by (simp_all add: newSpinner_def isRunning_def)
  from keydown_meta_key [OF pre] pre z show ?thesis by simp
qed

text \<open>
  The claim as stated fails on a disabled node: the listener returns before
  \<open>preventDefault\<close>, so the count of its calls stays 0.
\<close>

theorem keydown_meta_key_disabled_counterexample:
  "isRangeKey \<lparr>eventCode = ArrowUp, metaKey = True\<rparr> \<and> metaKey \<lparr>eventCode = ArrowUp, metaKey = True\<rparr> \<and>
   spinnerEvents [SetEnabled False, KeyDown \<lparr>eventCode = ArrowUp, metaKey = True\<rparr>] (newSpinner None None) =
     Inr ((newSpinner None None)\<lparr>enabledProperty := False\<rparr>) \<and>
   preventDefaults ((newSpinner None None)\<lparr>enabledProperty := False\<rparr>) = 0"
  by (simp add: newSpinner_def keydown_def isRangeKey_def)

end
